theory Spec2Isabelle
  imports Complex_Main "HOL-Library.Multiset"
begin

section \<open>Python strings\<close>

text \<open>
  A Python \<open>str\<close> is a sequence of Unicode code points. The repository handles Korean
  text and the zero-width characters U+200B and U+FEFF, so a string is modelled as the
  list of its code points; \<open>len\<close> is \<open>length\<close>. ASCII literals are written
  \<open>U ''...''\<close>.
\<close>

type_synonym pystr = "nat list"

abbreviation U :: "string \<Rightarrow> pystr" where
  "U s \<equiv> map of_char s"

text \<open>
  \<open>str.lower()\<close> follows the case tables of Unicode; it is a library function that the
  model does not define. Every function whose source calls it takes it as a parameter,
  written \<open>lower\<close>, and what is proved holds for every such function. \<open>ascii_lower\<close>
  is what \<open>str.lower()\<close> does on a string whose only cased code points are the ASCII
  letters; the sample data below is of that kind (ASCII and Hangul), and only the sample
  data is evaluated with it.
\<close>

definition ascii_lower_cp :: "nat \<Rightarrow> nat" where
  "ascii_lower_cp c = (if 65 \<le> c \<and> c \<le> 90 then c + 32 else c)"

definition ascii_lower :: "pystr \<Rightarrow> pystr" where
  "ascii_lower s = map ascii_lower_cp s"

text \<open>\<open>s.startswith(k)\<close> and the substring test \<open>k in s\<close>.\<close>

fun startswith :: "pystr \<Rightarrow> pystr \<Rightarrow> bool" where
  "startswith s [] = True"
| "startswith [] (k # ks) = False"
| "startswith (c # cs) (k # ks) = (c = k \<and> startswith cs ks)"

fun py_in :: "pystr \<Rightarrow> pystr \<Rightarrow> bool" where
  "py_in k [] = (k = [])"
| "py_in k (c # cs) = (startswith (c # cs) k \<or> py_in k cs)"

text \<open>\<open>sep.join(parts)\<close>.\<close>

fun join :: "pystr \<Rightarrow> pystr list \<Rightarrow> pystr" where
  "join sep [] = []"
| "join sep [x] = x"
| "join sep (x # y # ys) = x @ sep @ join sep (y # ys)"

section \<open>ai_summarizer.py: keywords, categories, top keywords\<close>

text \<open>
  \<open>AISummarizer._extract_keywords\<close>. The text is the f-string \<open>"{title} {summary}"\<close>,
  lower-cased. The loop appends every vocabulary term whose lower-cased form occurs in the
  text; the result is \<open>found_keywords[:5]\<close>. The vocabulary \<open>Config.AI_KEYWORDS\<close> is a
  parameter; \<open>AI_KEYWORDS\<close> below is the list of config.py.
\<close>

definition tagger_text :: "(pystr \<Rightarrow> pystr) \<Rightarrow> pystr \<Rightarrow> pystr \<Rightarrow> pystr" where
  "tagger_text lower title summary = lower (title @ U '' '' @ summary)"

fun found_keywords ::
  "(pystr \<Rightarrow> pystr) \<Rightarrow> pystr list \<Rightarrow> pystr \<Rightarrow> pystr list \<Rightarrow> pystr list" where
  "found_keywords lower [] text found = found"
| "found_keywords lower (keyword # rest) text found =
     found_keywords lower rest text
       (if py_in (lower keyword) text then found @ [keyword] else found)"

definition extract_keywords ::
  "(pystr \<Rightarrow> pystr) \<Rightarrow> pystr list \<Rightarrow> pystr \<Rightarrow> pystr \<Rightarrow> pystr list" where
  "extract_keywords lower vocabulary title summary =
     take 5 (found_keywords lower vocabulary (tagger_text lower title summary) [])"

definition AI_KEYWORDS :: "pystr list" where
  "AI_KEYWORDS =
    [U ''artificial intelligence'', U ''AI'', U ''machine learning'', U ''deep learning'',
     U ''neural network'', U ''ChatGPT'', U ''OpenAI'', U ''Google AI'',
     [51064, 44277, 51648, 45733], [47672, 49888, 47084, 45789], [46373, 47084, 45789],
     [49373, 49457, 54805, 32, 65, 73], [65, 73, 32, 44592, 49696], U ''LLM'', U ''GPT'']"

text \<open>
  \<open>AISummarizer._categorize_article\<close>. \<open>Config.CATEGORY_KEYWORDS\<close> is read but config.py
  does not define it, so the table is a parameter: a dict in insertion order, that is, an
  association list from category name to keyword list. The first category one of whose
  keywords occurs in the text is returned; the default label is \<open>AI\<close>, a space,
  U+B274, U+C2A4.
\<close>

definition default_category :: pystr where
  "default_category = [65, 73, 32, 45684, 49828]"

fun keyword_hit :: "(pystr \<Rightarrow> pystr) \<Rightarrow> pystr list \<Rightarrow> pystr \<Rightarrow> bool" where
  "keyword_hit lower [] text = False"
| "keyword_hit lower (keyword # rest) text =
     (py_in (lower keyword) text \<or> keyword_hit lower rest text)"

fun categorize_in ::
  "(pystr \<Rightarrow> pystr) \<Rightarrow> (pystr \<times> pystr list) list \<Rightarrow> pystr \<Rightarrow> pystr" where
  "categorize_in lower [] text = default_category"
| "categorize_in lower ((category, keywords) # rest) text =
     (if keyword_hit lower keywords text then category else categorize_in lower rest text)"

definition categorize_article ::
  "(pystr \<Rightarrow> pystr) \<Rightarrow> (pystr \<times> pystr list) list \<Rightarrow> pystr \<Rightarrow> pystr \<Rightarrow> pystr" where
  "categorize_article lower CATEGORY_KEYWORDS title summary =
     categorize_in lower CATEGORY_KEYWORDS (tagger_text lower title summary)"

text \<open>
  \<open>AISummarizer._get_top_keywords\<close>. \<open>Counter(all_keywords)\<close> is a dict in first-seen
  order from keyword to number of occurrences. \<open>most_common(10)\<close> is, by its
  documentation, \<open>sorted(items, key=count, reverse=True)[:10]\<close>: a stable sort on the
  count, descending, then the first ten.
\<close>

fun counter_add :: "'a \<Rightarrow> ('a \<times> nat) list \<Rightarrow> ('a \<times> nat) list" where
  "counter_add k [] = [(k, 1)]"
| "counter_add k ((k', c) # rest) =
     (if k = k' then (k', c + 1) # rest else (k', c) # counter_add k rest)"

definition Counter :: "'a list \<Rightarrow> ('a \<times> nat) list" where
  "Counter xs = foldl (\<lambda>counts k. counter_add k counts) [] xs"

definition most_common :: "nat \<Rightarrow> ('a \<times> nat) list \<Rightarrow> ('a \<times> nat) list" where
  "most_common n counts = take n (sort_key (\<lambda>item. - int (snd item)) counts)"

definition default_top_keywords :: "pystr list" where
  "default_top_keywords =
     [[51064, 44277, 51648, 45733], [65, 73], [44592, 49696], [45684, 49828], [54785, 49888]]"

definition get_top_keywords :: "pystr list \<Rightarrow> pystr list" where
  "get_top_keywords all_keywords =
     (if all_keywords = [] then default_top_keywords
      else map fst (most_common 10 (Counter all_keywords)))"

text \<open>
  The vocabulary used to state the claims: how often a keyword was collected, and the
  position at which it was first seen.
\<close>

definition first_seen :: "'a list \<Rightarrow> 'a \<Rightarrow> nat" where
  "first_seen xs k = length (takeWhile (\<lambda>x. x \<noteq> k) xs)"

definition ranks_before :: "'a list \<Rightarrow> 'a \<Rightarrow> 'a \<Rightarrow> bool" where
  "ranks_before xs a b =
     (count_list xs b < count_list xs a \<or>
      (count_list xs a = count_list xs b \<and> first_seen xs a < first_seen xs b))"

text \<open>Sample data: the keyword counts and the category table of the specification's scenarios.\<close>

definition kw_AI :: pystr where
  "kw_AI = [65, 73]"

definition kw_GPT :: pystr where
  "kw_GPT = [71, 80, 84]"

definition kw_ingongjineung :: pystr where
  "kw_ingongjineung = [51064, 44277, 51648, 45733]"

definition sample_keywords :: "pystr list" where
  "sample_keywords =
     [kw_AI, kw_GPT, kw_ingongjineung, kw_AI, kw_GPT, kw_AI, kw_GPT, kw_ingongjineung,
      kw_AI, kw_GPT, kw_ingongjineung, kw_AI, kw_GPT]"

definition sample_categories :: "(pystr \<times> pystr list) list" where
  "sample_categories =
     [([65, 73, 32, 45684, 49828], [[65, 73], [51064, 44277, 51648, 45733]]),
      ([44592, 49696], [[49828, 53440, 53944, 50629]])]"

section \<open>article_crawler.py\<close>

subsection \<open>The parsed page\<close>

text \<open>
  A page parsed by BeautifulSoup is a tree: a text node, or an element with its tag
  name (in lower case, as the parser stores it), the list of its classes (the parser
  stores the \<open>class\<close> attribute as a list), its other attributes and its children. A
  text node is a string that \<open>get_text\<close> yields; comments and the contents of
  \<open>script\<close> and \<open>style\<close> elements, which it passes over, are not part of the tree.
  The soup object itself is the root element. A reference to an element inside a soup,
  such as the one \<open>select_one\<close> returns, is the path of child indices that leads to it
  from the root; mutating the element through the reference mutates the soup.
\<close>

datatype node = Text pystr | Elem pystr "pystr list" "(pystr \<times> pystr) list" "node list"

fun kids_of :: "node \<Rightarrow> node list" where
  "kids_of (Text s) = []"
| "kids_of (Elem name classes attrs kids) = kids"

primrec get_at :: "nat list \<Rightarrow> node \<Rightarrow> node option" where
  "get_at [] n = Some n"
| "get_at (i # path) n =
     (if i < length (kids_of n) then get_at path (kids_of n ! i) else None)"

primrec put_at :: "nat list \<Rightarrow> node \<Rightarrow> node \<Rightarrow> node" where
  "put_at [] new n = new"
| "put_at (i # path) new n =
     (case n of
        Text s \<Rightarrow> Text s
      | Elem name classes attrs kids \<Rightarrow>
          if i < length kids then Elem name classes attrs (kids[i := put_at path new (kids ! i)])
          else n)"

text \<open>
  The selectors of the repository have three forms: \<open>.class\<close>, \<open>#id\<close> and a tag name
  (46 is the full stop, 35 the hash sign).
\<close>

fun matches :: "pystr \<Rightarrow> node \<Rightarrow> bool" where
  "matches selector (Text s) = False"
| "matches selector (Elem name classes attrs kids) =
     (case selector of
        [] \<Rightarrow> False
      | c # rest \<Rightarrow>
          if c = 46 then rest \<in> set classes
          else if c = 35 then map_of attrs (U ''id'') = Some rest
          else name = selector)"

text \<open>
  \<open>element.select(selector)\<close>: the descendants that match, in document order, each as
  the path from the element. \<open>select_one\<close> is the first of them.
\<close>

fun select_in :: "(node \<Rightarrow> bool) \<Rightarrow> node list \<Rightarrow> nat \<Rightarrow> nat list list" where
  "select_in P [] i = []"
| "select_in P (Text s # rest) i = select_in P rest (Suc i)"
| "select_in P (Elem name classes attrs kids # rest) i =
     (if P (Elem name classes attrs kids) then [[i]] else [])
     @ map ((#) i) (select_in P kids 0)
     @ select_in P rest (Suc i)"

definition select :: "pystr \<Rightarrow> node \<Rightarrow> nat list list" where
  "select selector element = select_in (matches selector) (kids_of element) 0"

definition select_one :: "pystr \<Rightarrow> node \<Rightarrow> nat list option" where
  "select_one selector element =
     (case select selector element of [] \<Rightarrow> None | path # others \<Rightarrow> Some path)"

text \<open>
  \<open>for tag in element.select(selector): tag.decompose()\<close> removes every matching
  descendant, with its subtree, from the element.
\<close>

fun remove_in :: "(node \<Rightarrow> bool) \<Rightarrow> node list \<Rightarrow> node list" where
  "remove_in P [] = []"
| "remove_in P (Text s # rest) = Text s # remove_in P rest"
| "remove_in P (Elem name classes attrs kids # rest) =
     (if P (Elem name classes attrs kids) then remove_in P rest
      else Elem name classes attrs (remove_in P kids) # remove_in P rest)"

fun decompose_selected :: "pystr \<Rightarrow> node \<Rightarrow> node" where
  "decompose_selected selector (Text s) = Text s"
| "decompose_selected selector (Elem name classes attrs kids) =
     Elem name classes attrs (remove_in (matches selector) kids)"

text \<open>\<open>find_all(name)\<close> and \<open>find(name)\<close>: the descendant elements with that tag name.\<close>

fun has_name :: "pystr \<Rightarrow> node \<Rightarrow> bool" where
  "has_name tag (Text s) = False"
| "has_name tag (Elem name classes attrs kids) = (name = tag)"

fun find_in :: "(node \<Rightarrow> bool) \<Rightarrow> node list \<Rightarrow> node list" where
  "find_in P [] = []"
| "find_in P (Text s # rest) = find_in P rest"
| "find_in P (Elem name classes attrs kids # rest) =
     (if P (Elem name classes attrs kids) then [Elem name classes attrs kids] else [])
     @ find_in P kids @ find_in P rest"

definition find_all :: "pystr \<Rightarrow> node \<Rightarrow> node list" where
  "find_all tag element = find_in (has_name tag) (kids_of element)"

definition find_first :: "pystr \<Rightarrow> node \<Rightarrow> node option" where
  "find_first tag element =
     (case find_all tag element of [] \<Rightarrow> None | found # others \<Rightarrow> Some found)"

subsection \<open>Text normalisation\<close>

text \<open>
  The code points for which \<open>str.isspace()\<close> holds: what \<open>\s\<close> matches in a \<open>str\<close>
  pattern and what \<open>strip()\<close> removes. U+200B (8203) and U+FEFF (65279) are not among
  them.
\<close>

definition isspace :: "nat \<Rightarrow> bool" where
  "isspace c =
     ((9 \<le> c \<and> c \<le> 13) \<or> (28 \<le> c \<and> c \<le> 32) \<or> c = 133 \<or> c = 160 \<or> c = 5760 \<or>
      (8192 \<le> c \<and> c \<le> 8202) \<or> c = 8232 \<or> c = 8233 \<or> c = 8239 \<or> c = 8287 \<or> c = 12288)"

text \<open>
  \<open>re.sub(r'\s+', ' ', text)\<close>: every maximal run of whitespace becomes one space. The
  flag says that the preceding character belonged to a run.
\<close>

fun re_sub_spaces :: "bool \<Rightarrow> pystr \<Rightarrow> pystr" where
  "re_sub_spaces in_run [] = []"
| "re_sub_spaces in_run (c # cs) =
     (if isspace c then (if in_run then re_sub_spaces True cs else 32 # re_sub_spaces True cs)
      else c # re_sub_spaces False cs)"

definition replace_with_empty :: "nat \<Rightarrow> pystr \<Rightarrow> pystr" where
  "replace_with_empty ch text = filter (\<lambda>c. c \<noteq> ch) text"

definition strip :: "pystr \<Rightarrow> pystr" where
  "strip text = rev (dropWhile isspace (rev (dropWhile isspace text)))"

text \<open>
  \<open>html.unescape(s)\<close> returns \<open>s\<close> itself when it holds no ampersand (38), and the
  result of the character-reference substitution otherwise. The substitution, with the
  entity table of the standard library, is a parameter of the model.
\<close>

definition unescape :: "(pystr \<Rightarrow> pystr) \<Rightarrow> pystr \<Rightarrow> pystr" where
  "unescape charref_sub s = (if 38 \<notin> set s then s else charref_sub s)"

text \<open>
  The world outside the program: the outcome of the page request made for the \<open>i\<close>-th
  stub of a batch (the request, \<open>raise_for_status\<close>, the encoding check and the parse),
  the clock read when the \<open>i\<close>-th stub is stamped, and the library functions that are
  not modelled further: the character-reference substitution of \<open>html.unescape\<close>,
  \<open>urljoin\<close> and \<open>str.lower()\<close>. \<open>urljoin\<close> raises on a URL that it cannot parse; that
  is \<open>None\<close>.
\<close>

datatype fetch_outcome = RequestException | OtherException | Parsed node

record env =
  http_get :: "nat \<Rightarrow> pystr \<Rightarrow> fetch_outcome"
  time_time :: "nat \<Rightarrow> nat"
  charref_sub :: "pystr \<Rightarrow> pystr"
  urljoin :: "pystr \<Rightarrow> pystr \<Rightarrow> pystr option"
  str_lower :: "pystr \<Rightarrow> pystr"

text \<open>\<open>ArticleCrawler._clean_text\<close>.\<close>

definition clean_text :: "env \<Rightarrow> pystr \<Rightarrow> pystr" where
  "clean_text w text =
     (if text = [] then []
      else strip (unescape (charref_sub w)
             (replace_with_empty 65279 (replace_with_empty 8203 (re_sub_spaces False text)))))"

text \<open>
  \<open>get_text(separator, strip)\<close>: the strings below the element in document order,
  joined by the separator; with \<open>strip=True\<close> each string is stripped and the empty ones
  are left out.
\<close>

fun strings_in :: "node list \<Rightarrow> pystr list" where
  "strings_in [] = []"
| "strings_in (Text s # rest) = s # strings_in rest"
| "strings_in (Elem name classes attrs kids # rest) = strings_in kids @ strings_in rest"

definition get_text :: "pystr \<Rightarrow> bool \<Rightarrow> node \<Rightarrow> pystr" where
  "get_text separator strip_flag element =
     (if strip_flag
      then join separator (filter (\<lambda>s. s \<noteq> []) (map strip (strings_in [element])))
      else join separator (strings_in [element]))"

subsection \<open>The crawler object\<close>

text \<open>
  \<open>self.stats\<close>, the two selector tables and the configuration object. config.py
  defines \<open>REQUEST_TIMEOUT\<close> and \<open>REQUEST_DELAY = 1.0\<close> but no attribute \<open>TIMEOUT\<close>,
  which \<open>_extract_content\<close> reads: \<open>TIMEOUT\<close> is \<open>None\<close> when the attribute is absent.
\<close>

record stats_dict =
  total_attempts :: nat
  successful_crawls :: nat
  failed_crawls :: nat
  fallback_used :: nat

record config =
  TIMEOUT :: "nat option"

record crawler =
  config :: config
  stats :: stats_dict
  content_selectors :: "(pystr \<times> pystr list) list"
  remove_selectors :: "pystr list"

definition Config :: config where
  "Config = \<lparr>TIMEOUT = None\<rparr>"

text \<open>\<open>ArticleCrawler.__init__\<close>.\<close>

definition ArticleCrawler :: "config \<Rightarrow> crawler" where
  "ArticleCrawler cfg =
     \<lparr>config = cfg,
      stats = \<lparr>total_attempts = 0, successful_crawls = 0, failed_crawls = 0, fallback_used = 0\<rparr>,
      content_selectors =
        [(U ''aitimes.com'', [U ''.article-content'', U ''.news-content'', U ''article'']),
         (U ''techcrunch.com'', [U ''.entry-content'', U ''.article-content'']),
         (U ''zdnet.co.kr'', [U ''.view_con'', U ''.article_view'', U ''.news-content'']),
         (U ''chosun.com'', [U ''.news_text'', U ''.article_view'', U ''.news-content'']),
         (U ''dt.co.kr'', [U ''.article-content'', U ''.view-con'', U ''.news-content'']),
         (U ''etnews.com'', [U ''.article_txt'', U ''.news-content'', U ''.article-content'']),
         (U ''hankyung.com'', [U ''.article-content'', U ''.news-content'']),
         (U ''mk.co.kr'', [U ''.news_detail_text'', U ''.article-content''])],
      remove_selectors =
        [U ''script'', U ''style'', U ''nav'', U ''header'', U ''footer'', U ''aside'',
         U ''.advertisement'', U ''.ad'', U ''.ads'', U ''.social-share'',
         U ''.related-articles'', U ''.comment'', U ''.navigation'',
         U ''.breadcrumb'', U ''.tag'', U ''.share'', U ''.print'']\<rparr>"

definition bump_fallback_used :: "crawler \<Rightarrow> crawler" where
  "bump_fallback_used self = self\<lparr>stats := (stats self)\<lparr>fallback_used := fallback_used (stats self) + 1\<rparr>\<rparr>"

definition bump_successful_crawls :: "crawler \<Rightarrow> crawler" where
  "bump_successful_crawls self =
     self\<lparr>stats := (stats self)\<lparr>successful_crawls := successful_crawls (stats self) + 1\<rparr>\<rparr>"

definition bump_failed_crawls :: "crawler \<Rightarrow> crawler" where
  "bump_failed_crawls self =
     self\<lparr>stats := (stats self)\<lparr>failed_crawls := failed_crawls (stats self) + 1\<rparr>\<rparr>"

subsection \<open>Content extraction\<close>

text \<open>
  \<open>ArticleCrawler._clean_content\<close>. The element is a reference into the soup: the noise
  elements are removed in place, selector by selector, and the text of what remains is
  normalised. The soup comes back with the element as it now is.
\<close>

definition clean_content :: "crawler \<Rightarrow> env \<Rightarrow> node \<Rightarrow> nat list \<Rightarrow> node \<times> pystr" where
  "clean_content self w soup path =
     (case get_at path soup of
        None \<Rightarrow> (soup, [])
      | Some element \<Rightarrow>
          let cleaned = foldl (\<lambda>el selector. decompose_selected selector el) element
                          (remove_selectors self)
          in (put_at path cleaned soup, clean_text w (get_text (U '' '') True cleaned)))"

text \<open>
  \<open>urlparse(url).netloc\<close> for a URL without control characters or brackets (the
  request for a URL that the parser rejects has failed before this point): a scheme
  (a letter, then letters, digits, plus, minus, full stop) before the first colon is cut
  off; if what follows starts with two slashes, the network location runs up to the next
  slash, question mark or hash sign, and it is empty otherwise.
\<close>

definition scheme_char :: "nat \<Rightarrow> bool" where
  "scheme_char c =
     ((97 \<le> c \<and> c \<le> 122) \<or> (65 \<le> c \<and> c \<le> 90) \<or> (48 \<le> c \<and> c \<le> 57) \<or>
      c = 43 \<or> c = 45 \<or> c = 46)"

definition ascii_alpha :: "nat \<Rightarrow> bool" where
  "ascii_alpha c = ((97 \<le> c \<and> c \<le> 122) \<or> (65 \<le> c \<and> c \<le> 90))"

definition after_scheme :: "pystr \<Rightarrow> pystr" where
  "after_scheme url =
     (let scheme = takeWhile (\<lambda>c. c \<noteq> 58) url; rest = dropWhile (\<lambda>c. c \<noteq> 58) url
      in if rest \<noteq> [] \<and> scheme \<noteq> [] \<and> ascii_alpha (hd url) \<and> list_all scheme_char scheme
         then tl rest else url)"

definition netloc :: "pystr \<Rightarrow> pystr" where
  "netloc url =
     (let rest = after_scheme url
      in if take 2 rest = U ''//''
         then takeWhile (\<lambda>c. c \<noteq> 47 \<and> c \<noteq> 63 \<and> c \<noteq> 35) (drop 2 rest)
         else [])"

text \<open>
  The selectors for a URL: those of the first entry of the site table whose domain occurs
  in the lower-cased network location, and the generic list when that gives nothing.
\<close>

fun site_selectors :: "(pystr \<times> pystr list) list \<Rightarrow> pystr \<Rightarrow> pystr list" where
  "site_selectors [] domain = []"
| "site_selectors ((site_domain, selectors) # rest) domain =
     (if py_in site_domain domain then selectors else site_selectors rest domain)"

definition generic_selectors :: "pystr list" where
  "generic_selectors =
     [U ''article'', U ''.article-content'', U ''.news-content'', U ''.post-content'',
      U ''.entry-content'', U ''#content'', U ''.article-body'', U ''.news-body'',
      U ''.content'', U ''.main-content'', U ''.article'', U ''.post'']"

definition selectors_for :: "crawler \<Rightarrow> env \<Rightarrow> pystr \<Rightarrow> pystr list" where
  "selectors_for self w url =
     (let selectors = site_selectors (content_selectors self) (str_lower w (netloc url))
      in if selectors = [] then generic_selectors else selectors)"

text \<open>
  The selector loop of \<open>_extract_main_content\<close>: the first selector whose element, once
  cleaned, has more than 200 characters returns; an element that does not reach the
  threshold stays cleaned in the soup.
\<close>

fun try_selectors :: "crawler \<Rightarrow> env \<Rightarrow> pystr list \<Rightarrow> node \<Rightarrow> node \<times> pystr option" where
  "try_selectors self w [] soup = (soup, None)"
| "try_selectors self w (selector # rest) soup =
     (case select_one selector soup of
        None \<Rightarrow> try_selectors self w rest soup
      | Some content_element \<Rightarrow>
          (case clean_content self w soup content_element of
             (soup', content) \<Rightarrow>
               if length content > 200 then (soup', Some content)
               else try_selectors self w rest soup'))"

text \<open>
  \<open>ArticleCrawler._extract_main_content\<close>: the selector loop, then the paragraphs of
  the soup, then the first 1000 characters of the body text, then the empty string. The
  result is the soup as the call leaves it, the crawler and the content.
\<close>

definition extract_main_content :: "crawler \<Rightarrow> env \<Rightarrow> node \<Rightarrow> pystr \<Rightarrow> node \<times> crawler \<times> pystr" where
  "extract_main_content self w soup url =
     (case try_selectors self w (selectors_for self w url) soup of
        (soup', Some content) \<Rightarrow> (soup', self, content)
      | (soup', None) \<Rightarrow>
          (let paragraphs = find_all (U ''p'') soup'
           in if paragraphs \<noteq> []
              then (soup', bump_fallback_used self,
                    clean_text w (join (U '' '') (map (get_text [] True) paragraphs)))
              else (case find_first (U ''body'') soup' of
                      Some body \<Rightarrow> (soup', self, clean_text w (take 1000 (get_text [] False body)))
                    | None \<Rightarrow> (soup', self, []))))"

subsection \<open>Images\<close>

record image =
  img_url :: pystr
  img_alt :: pystr
  img_title :: pystr

text \<open>\<open>ArticleCrawler._is_valid_image\<close>.\<close>

definition is_valid_image :: "env \<Rightarrow> pystr \<Rightarrow> bool" where
  "is_valid_image w u =
     (if u = [] then False
      else if list_ex (\<lambda>ext. py_in ext (str_lower w u))
                [U ''.jpg'', U ''.jpeg'', U ''.png'', U ''.gif'', U ''.webp''] then True
      else if list_ex (\<lambda>keyword. py_in keyword (str_lower w u))
                [U ''icon'', U ''logo'', U ''avatar'', U ''thumbnail'', U ''1x1'', U ''pixel'']
           then False
      else True)"

text \<open>
  \<open>img.get('src') or img.get('data-src')\<close>, and \<open>img.get(name, '')\<close>; an attribute
  that is absent or empty counts as false.
\<close>

definition src_of :: "(pystr \<times> pystr) list \<Rightarrow> pystr" where
  "src_of attrs =
     (case map_of attrs (U ''src'') of
        Some s \<Rightarrow> if s \<noteq> [] then s
                  else (case map_of attrs (U ''data-src'') of Some d \<Rightarrow> d | None \<Rightarrow> [])
      | None \<Rightarrow> (case map_of attrs (U ''data-src'') of Some d \<Rightarrow> d | None \<Rightarrow> []))"

definition attr_or_empty :: "(pystr \<times> pystr) list \<Rightarrow> pystr \<Rightarrow> pystr" where
  "attr_or_empty attrs name = (case map_of attrs name of Some v \<Rightarrow> v | None \<Rightarrow> [])"

fun attrs_of :: "node \<Rightarrow> (pystr \<times> pystr) list" where
  "attrs_of (Text s) = []"
| "attrs_of (Elem name classes attrs kids) = attrs"

text \<open>
  The loop of \<open>_extract_images\<close> over the \<open>img\<close> elements; \<open>None\<close> when \<open>urljoin\<close>
  raises.
\<close>

fun collect_images :: "env \<Rightarrow> pystr \<Rightarrow> node list \<Rightarrow> image list \<Rightarrow> image list option" where
  "collect_images w base_url [] images = Some images"
| "collect_images w base_url (img # rest) images =
     (if src_of (attrs_of img) \<noteq> []
      then (case urljoin w base_url (src_of (attrs_of img)) of
              None \<Rightarrow> None
            | Some absolute_url \<Rightarrow>
                collect_images w base_url rest
                  (if is_valid_image w absolute_url
                   then images @ [\<lparr>img_url = absolute_url,
                                    img_alt = attr_or_empty (attrs_of img) (U ''alt''),
                                    img_title = attr_or_empty (attrs_of img) (U ''title'')\<rparr>]
                   else images))
      else collect_images w base_url rest images)"

text \<open>\<open>ArticleCrawler._extract_images\<close>: the first five of the images collected.\<close>

definition extract_images :: "env \<Rightarrow> node \<Rightarrow> pystr \<Rightarrow> image list option" where
  "extract_images w soup base_url =
     map_option (take 5) (collect_images w base_url (find_all (U ''img'') soup) [])"

text \<open>
  \<open>ArticleCrawler._extract_content\<close> for the \<open>i\<close>-th stub. Reading the missing
  attribute \<open>TIMEOUT\<close> raises inside the \<open>try\<close>; that, a failed request and any other
  exception, also one from the image extraction, are caught here and give empty content
  and no images. The images are taken from the soup as the content extraction left it,
  and a counter that the content extraction has incremented stays incremented.
\<close>

definition extract_content :: "crawler \<Rightarrow> env \<Rightarrow> nat \<Rightarrow> pystr \<Rightarrow> crawler \<times> pystr \<times> image list" where
  "extract_content self w i u =
     (case TIMEOUT (config self) of
        None \<Rightarrow> (self, [], [])
      | Some timeout \<Rightarrow>
          (case http_get w i u of
             RequestException \<Rightarrow> (self, [], [])
           | OtherException \<Rightarrow> (self, [], [])
           | Parsed soup \<Rightarrow>
               (case extract_main_content self w soup u of
                  (soup', self', content) \<Rightarrow>
                    (case extract_images w soup' u of
                       None \<Rightarrow> (self', [], [])
                     | Some images \<Rightarrow> (self', content, images)))))"

subsection \<open>The crawl loop\<close>

text \<open>
  An article is a Python dict. The record has the keys that the crawler and the summary
  read or write; a key that is absent is \<open>None\<close>. Other keys of a stub are carried along
  untouched and are not represented.
\<close>

record article =
  title :: "pystr option"
  link :: "pystr option"
  url :: "pystr option"
  summary :: "pystr option"
  source :: "pystr option"
  published :: "nat option"
  content :: "pystr option"
  images :: "image list option"
  content_length :: "nat option"
  crawl_status :: "pystr option"
  crawled_at :: "nat option"

datatype exn = KeyError pystr | ZeroDivisionError

text \<open>
  The \<open>except\<close> block of the loop body. The log line reads \<open>article['title']\<close>, which
  raises out of the handler when the key is absent.
\<close>

definition on_exception :: "env \<Rightarrow> nat \<Rightarrow> crawler \<Rightarrow> article \<Rightarrow> crawler \<times> (exn + article)" where
  "on_exception w i self a =
     (let self' = bump_failed_crawls self
      in case title a of
           None \<Rightarrow> (self', Inl (KeyError (U ''title'')))
         | Some t \<Rightarrow>
             (let fallback = (case summary a of Some s \<Rightarrow> s | None \<Rightarrow> [])
              in (self', Inr (a\<lparr>content := Some fallback, images := Some [],
                                content_length := Some (length fallback),
                                crawl_status := Some (U ''error''),
                                crawled_at := Some (time_time w i)\<rparr>))))"

text \<open>
  One pass of the loop body for the \<open>i\<close>-th stub: the \<open>try\<close> block, which reads
  \<open>article['title']\<close> and \<open>article['link']\<close>, and the handler when one of them is absent.
\<close>

definition crawl_one :: "env \<Rightarrow> nat \<Rightarrow> crawler \<Rightarrow> article \<Rightarrow> crawler \<times> (exn + article)" where
  "crawl_one w i self a =
     (case title a of
        None \<Rightarrow> on_exception w i self a
      | Some t \<Rightarrow>
          (case link a of
             None \<Rightarrow> on_exception w i self a
           | Some u \<Rightarrow>
               (case extract_content self w i u of
                  (self', content_text, imgs) \<Rightarrow>
                    (if content_text \<noteq> [] then bump_successful_crawls self'
                     else bump_failed_crawls self',
                     Inr (a\<lparr>content := Some content_text, images := Some imgs,
                            content_length := Some (length content_text),
                            crawl_status :=
                              Some (if content_text \<noteq> [] then U ''success'' else U ''failed''),
                            crawled_at := Some (time_time w i)\<rparr>)))))"

text \<open>
  The loop of \<open>crawl_articles\<close> on a batch in which every position holds a dict object
  of its own, as the feed collector builds it: the records are then independent values.
  The loop on a batch of references, in which one dict may occur more than once, follows
  below (\<open>crawl_loop_refs\<close>).
\<close>

fun crawl_loop ::
  "env \<Rightarrow> nat \<Rightarrow> article list \<Rightarrow> crawler \<Rightarrow> article list \<Rightarrow> crawler \<times> (exn + article list)" where
  "crawl_loop w i [] self crawled_articles = (self, Inr crawled_articles)"
| "crawl_loop w i (a # rest) self crawled_articles =
     (case crawl_one w i self a of
        (self', Inl e) \<Rightarrow> (self', Inl e)
      | (self', Inr a') \<Rightarrow> crawl_loop w (Suc i) rest self' (crawled_articles @ [a']))"

text \<open>
  \<open>ArticleCrawler._print_statistics\<close>: the value is the success rate that is printed;
  Python's division raises on a zero divisor.
\<close>

definition truediv :: "nat \<Rightarrow> nat \<Rightarrow> exn + rat" where
  "truediv a b = (if b = 0 then Inl ZeroDivisionError else Inr (of_nat a / of_nat b))"

definition print_statistics :: "crawler \<Rightarrow> exn + rat" where
  "print_statistics self =
     (if total_attempts (stats self) > 0
      then (case truediv (successful_crawls (stats self)) (total_attempts (stats self)) of
              Inl e \<Rightarrow> Inl e
            | Inr q \<Rightarrow> Inr (q * 100))
      else Inr 0)"

text \<open>
  \<open>ArticleCrawler.crawl_articles\<close>: the crawler as the call leaves it, and either the
  exception that reached the caller or the list that is returned.
\<close>

definition crawl_articles :: "env \<Rightarrow> crawler \<Rightarrow> article list \<Rightarrow> crawler \<times> (exn + article list)" where
  "crawl_articles w self articles =
     (case crawl_loop w 1 articles
             (self\<lparr>stats := (stats self)\<lparr>total_attempts := length articles\<rparr>\<rparr>) [] of
        (self', Inl e) \<Rightarrow> (self', Inl e)
      | (self', Inr crawled_articles) \<Rightarrow>
          (case print_statistics self' of
             Inl e \<Rightarrow> (self', Inl e)
           | Inr rate \<Rightarrow> (self', Inr crawled_articles)))"

text \<open>
  The same loop on the objects themselves. The batch is a list of references to dicts,
  and \<open>heap\<close> gives the dict behind each reference. The loop body reads the dict, writes
  the five crawl fields into that same dict and appends the reference to the result, so
  a dict that occurs twice in the batch is written twice and the result shows the last
  write at both places. When the handler raises, nothing has been written yet.
\<close>

type_synonym ref = nat

type_synonym heap = "ref \<Rightarrow> article"

fun crawl_loop_refs ::
  "env \<Rightarrow> nat \<Rightarrow> ref list \<Rightarrow> crawler \<Rightarrow> heap \<Rightarrow> ref list \<Rightarrow> crawler \<times> heap \<times> (exn + ref list)" where
  "crawl_loop_refs w i [] self heap crawled_articles = (self, heap, Inr crawled_articles)"
| "crawl_loop_refs w i (r # rest) self heap crawled_articles =
     (case crawl_one w i self (heap r) of
        (self', Inl e) \<Rightarrow> (self', heap, Inl e)
      | (self', Inr a') \<Rightarrow>
          crawl_loop_refs w (Suc i) rest self' (heap(r := a')) (crawled_articles @ [r]))"

definition crawl_articles_refs ::
  "env \<Rightarrow> crawler \<Rightarrow> heap \<Rightarrow> ref list \<Rightarrow> crawler \<times> heap \<times> (exn + ref list)" where
  "crawl_articles_refs w self heap articles =
     (case crawl_loop_refs w 1 articles
             (self\<lparr>stats := (stats self)\<lparr>total_attempts := length articles\<rparr>\<rparr>) heap [] of
        (self', heap', Inl e) \<Rightarrow> (self', heap', Inl e)
      | (self', heap', Inr crawled_articles) \<Rightarrow>
          (case print_statistics self' of
             Inl e \<Rightarrow> (self', heap', Inl e)
           | Inr rate \<Rightarrow> (self', heap', Inr crawled_articles)))"

section \<open>main.py: the batch summary\<close>

text \<open>
  What \<open>create_simple_summary\<close> reads from outside: the formatting of a timestamp with
  the fixed format string, the clock, the search keywords of the configuration and
  \<open>str.lower()\<close>. A time is a number. \<open>datetime_now e k\<close> is what the \<open>k\<close>-th call of
  \<open>datetime.now()\<close> during one call of the function returns, counting from 0. For
  \<open>n\<close> articles the calls are, in this order: one for the sort key of each article in
  input order (calls \<open>0\<close> to \<open>n - 1\<close>; the default of \<open>get\<close> is evaluated whether or
  not the key is there), one for \<open>collection_time\<close> (call \<open>n\<close>), and one in the loop for
  the article of rank \<open>i\<close> (call \<open>n + i\<close>).
\<close>

record summary_env =
  strftime :: "nat \<Rightarrow> pystr"
  datetime_now :: "nat \<Rightarrow> nat"
  get_search_keywords :: "pystr list"
  lower_case :: "pystr \<Rightarrow> pystr"

record article_data =
  rank :: nat
  ad_title :: pystr
  ad_source :: pystr
  ad_published :: pystr
  ad_url :: pystr
  ad_content :: pystr
  ad_content_length :: nat
  ad_summary :: "pystr option"

text \<open>
  The summary dict. \<open>sources\<close> and \<open>keywords_found\<close> are built as sets and turned into
  lists in an order that Python does not fix; they stay sets here. \<open>latest\<close> and
  \<open>earliest\<close> are the two entries of \<open>date_range\<close>, the last three fields the entries
  of \<open>stats\<close>.
\<close>

record summary_data =
  total_articles :: nat
  collection_time :: pystr
  articles :: "article_data list"
  sources :: "pystr set"
  keywords_found :: "pystr set"
  latest :: "pystr option"
  earliest :: "pystr option"
  total_sources :: nat
  keywords_found_count :: nat
  avg_content_length :: nat

text \<open>
  \<open>article.get('published', datetime.now())\<close> where the call of \<open>datetime.now()\<close> is
  the \<open>k\<close>-th, and the like.
\<close>

definition published_or_now :: "summary_env \<Rightarrow> nat \<Rightarrow> article \<Rightarrow> nat" where
  "published_or_now e k a = (case published a of Some t \<Rightarrow> t | None \<Rightarrow> datetime_now e k)"

definition content_or_empty :: "article \<Rightarrow> pystr" where
  "content_or_empty a = (case content a of Some c \<Rightarrow> c | None \<Rightarrow> [])"

definition source_or_unknown :: "article \<Rightarrow> pystr" where
  "source_or_unknown a = (case source a of Some s \<Rightarrow> s | None \<Rightarrow> U ''Unknown Source'')"

text \<open>
  \<open>sorted(articles, key=..., reverse=True)\<close>: the key of every article is computed
  once, in input order; the articles are then sorted on their keys by a stable sort,
  largest key first, so that articles of equal key keep their order.
\<close>

definition sort_keys :: "summary_env \<Rightarrow> article list \<Rightarrow> nat list" where
  "sort_keys e arts =
     map (\<lambda>(k, x). published_or_now e k x) (zip [0..<length arts] arts)"

definition decorated :: "summary_env \<Rightarrow> article list \<Rightarrow> (nat \<times> article) list" where
  "decorated e arts = sort_key (\<lambda>p. - int (fst p)) (zip (sort_keys e arts) arts)"

definition sorted_articles :: "summary_env \<Rightarrow> article list \<Rightarrow> article list" where
  "sorted_articles e arts = map snd (decorated e arts)"

text \<open>
  The \<open>article_data\<close> dict of the article of rank \<open>i\<close> in a batch of \<open>n\<close> articles.
\<close>

definition article_data_of :: "summary_env \<Rightarrow> nat \<Rightarrow> nat \<Rightarrow> article \<Rightarrow> article_data" where
  "article_data_of e n i a =
     \<lparr>rank = i,
      ad_title = (case title a of Some t \<Rightarrow> t | None \<Rightarrow> U ''No Title''),
      ad_source = source_or_unknown a,
      ad_published = strftime e (published_or_now e (n + i) a),
      ad_url = (case url a of Some u \<Rightarrow> u | None \<Rightarrow> []),
      ad_content = (if content_or_empty a \<noteq> [] then take 500 (content_or_empty a) @ U ''...''
                    else U ''No Content''),
      ad_content_length = length (content_or_empty a),
      ad_summary = None\<rparr>"

text \<open>The loop over the sorted articles, with the rank counting from 1.\<close>

fun summary_loop ::
  "summary_env \<Rightarrow> nat \<Rightarrow> nat \<Rightarrow> article list \<Rightarrow> summary_data \<Rightarrow> summary_data" where
  "summary_loop e n i [] summary_data = summary_data"
| "summary_loop e n i (a # rest) summary_data =
     summary_loop e n (Suc i) rest
       (let article_data = article_data_of e n i a;
            text_to_check =
              lower_case e (ad_title article_data @ U '' '' @ content_or_empty a)
        in summary_data
             \<lparr>sources := insert (ad_source article_data) (sources summary_data),
              keywords_found := keywords_found summary_data \<union>
                 set (filter (\<lambda>keyword. py_in (lower_case e keyword) text_to_check)
                        (get_search_keywords e)),
              articles := articles summary_data @ [article_data]\<rparr>)"

definition set_date_range :: "summary_data \<Rightarrow> summary_data" where
  "set_date_range summary_data =
     (if articles summary_data \<noteq> []
      then summary_data\<lparr>latest := Some (ad_published (hd (articles summary_data))),
                         earliest := Some (ad_published (last (articles summary_data)))\<rparr>
      else summary_data)"

definition set_stats :: "summary_data \<Rightarrow> summary_data" where
  "set_stats summary_data =
     summary_data
       \<lparr>total_sources := card (sources summary_data),
        keywords_found_count := card (keywords_found summary_data),
        avg_content_length :=
          (if articles summary_data \<noteq> []
           then sum_list (map ad_content_length (articles summary_data))
                  div length (articles summary_data)
           else 0)\<rparr>"

text \<open>\<open>create_simple_summary\<close>.\<close>

definition create_simple_summary :: "summary_env \<Rightarrow> article list \<Rightarrow> summary_data" where
  "create_simple_summary e arts =
     set_stats (set_date_range
       (summary_loop e (length arts) 1 (sorted_articles e arts)
          \<lparr>total_articles = length arts,
           collection_time = strftime e (datetime_now e (length arts)),
           articles = [], sources = {}, keywords_found = {},
           latest = None, earliest = None,
           total_sources = 0, keywords_found_count = 0, avg_content_length = 0\<rparr>))"

section \<open>Vocabulary of the claims and sample data\<close>

text \<open>A record without the five fields that the crawl writes: what the stub brought along.\<close>

definition stub_of :: "article \<Rightarrow> article" where
  "stub_of a = a\<lparr>content := None, images := None, content_length := None,
                 crawl_status := None, crawled_at := None\<rparr>"

text \<open>The invariant of an enriched record.\<close>

definition well_formed :: "article \<Rightarrow> bool" where
  "well_formed a =
     ((\<exists>c. content a = Some c \<and> content_length a = Some (length c)) \<and>
      (\<exists>imgs. images a = Some imgs \<and> length imgs \<le> 5))"

text \<open>Two states of a crawler that differ at most in the three outcome counters.\<close>

definition same_setup :: "crawler \<Rightarrow> crawler \<Rightarrow> bool" where
  "same_setup s s' =
     (config s' = config s \<and> content_selectors s' = content_selectors s \<and>
      remove_selectors s' = remove_selectors s \<and>
      total_attempts (stats s') = total_attempts (stats s))"

text \<open>
  The stub of the specification's scenario, the same stub as the feed collector builds it
  (with the key \<open>url\<close> instead of \<open>link\<close>), a world in which every page request times
  out, and a configuration that has the attribute \<open>TIMEOUT\<close>.
\<close>

definition sample_stub :: article where
  "sample_stub =
     \<lparr>title = Some (U ''Sample AI Launch''), link = Some (U ''https://example.com/a''),
      url = None, summary = Some (U ''short''), source = None, published = None,
      content = None, images = None, content_length = None, crawl_status = None,
      crawled_at = None\<rparr>"

definition collector_stub :: article where
  "collector_stub =
     \<lparr>title = Some (U ''Sample AI Launch''), link = None,
      url = Some (U ''https://example.com/a''), summary = Some (U ''short''),
      source = Some (U ''Unknown''), published = Some 1000,
      content = Some [], images = None, content_length = None, crawl_status = None,
      crawled_at = None\<rparr>"

definition timeout_env :: env where
  "timeout_env =
     \<lparr>http_get = (\<lambda>i u. RequestException), time_time = (\<lambda>i. i),
      charref_sub = (\<lambda>s. s), urljoin = (\<lambda>base s. Some s),
      str_lower = ascii_lower\<rparr>"

definition timeout_config :: config where
  "timeout_config = \<lparr>TIMEOUT = Some 30\<rparr>"

definition failed_record :: article where
  "failed_record =
     sample_stub\<lparr>content := Some [], images := Some [], content_length := Some 0,
                 crawl_status := Some (U ''failed''), crawled_at := Some 1\<rparr>"

text \<open>A crawler that has already crawled one stub.\<close>

definition used_crawler :: crawler where
  "used_crawler = fst (crawl_articles timeout_env (ArticleCrawler timeout_config) [sample_stub])"

definition error_record :: article where
  "error_record =
     collector_stub\<lparr>content := Some (U ''short''), images := Some [],
                    content_length := Some 5, crawl_status := Some (U ''error''),
                    crawled_at := Some 1\<rparr>"

definition second_failed_record :: article where
  "second_failed_record =
     sample_stub\<lparr>content := Some [], images := Some [], content_length := Some 0,
                 crawl_status := Some (U ''failed''), crawled_at := Some 2\<rparr>"

text \<open>
  Sample pages. The first has a \<open>div\<close> of class \<open>article-content\<close> with 300 letters
  \<open>a\<close>; the second has its only paragraph inside a \<open>nav\<close> inside an \<open>article\<close>; the
  third has one paragraph and nothing that a selector matches.
\<close>

definition page_url :: pystr where
  "page_url = U ''https://example.com/a''"

definition clean_300 :: pystr where
  "clean_300 = replicate 300 97"

definition content_page :: node where
  "content_page =
     Elem (U ''[document]'') [] []
       [Elem (U ''html'') [] []
          [Elem (U ''body'') [] []
             [Elem (U ''div'') [U ''article-content''] [] [Text clean_300]]]]"

definition nav_page :: node where
  "nav_page =
     Elem (U ''[document]'') [] []
       [Elem (U ''html'') [] []
          [Elem (U ''body'') [] []
             [Elem (U ''article'') [] []
                [Elem (U ''nav'') [] [] [Elem (U ''p'') [] [] [Text (U ''menu'')]]]]]]"

definition nav_page_after :: node where
  "nav_page_after =
     Elem (U ''[document]'') [] []
       [Elem (U ''html'') [] [] [Elem (U ''body'') [] [] [Elem (U ''article'') [] [] []]]]"

definition paragraph_page :: node where
  "paragraph_page =
     Elem (U ''[document]'') [] []
       [Elem (U ''html'') [] []
          [Elem (U ''body'') [] [] [Elem (U ''p'') [] [] [Text (U ''menu'')]]]]"

text \<open>Three crawled articles for the summary, and an environment to summarise them in.\<close>

definition summary_env_sample :: summary_env where
  "summary_env_sample =
     \<lparr>strftime = (\<lambda>t. [t]), datetime_now = (\<lambda>k. 5000 + k),
      get_search_keywords = AI_KEYWORDS, lower_case = ascii_lower\<rparr>"

definition article_at :: "nat \<Rightarrow> pystr \<Rightarrow> pystr \<Rightarrow> article" where
  "article_at t s c =
     \<lparr>title = Some (U ''AI''), link = None, url = Some page_url, summary = Some [],
      source = Some s, published = Some t, content = Some c, images = Some [],
      content_length = Some (length c), crawl_status = Some (U ''success''),
      crawled_at = Some 1\<rparr>"

definition sample_articles :: "article list" where
  "sample_articles =
     [article_at 1000 (U ''A'') (U ''abcd''), article_at 3000 (U ''B'') (U ''abc''),
      article_at 2000 (U ''A'') []]"

text \<open>
  Two more pages. In the first the \<open>div\<close> of class \<open>article-content\<close> with its 300 clean
  characters sits in an \<open>aside\<close> inside an \<open>article\<close>. The second, for a URL of a site
  in the selector table (written with capitals), has an \<open>article\<close> with 300 letters \<open>b\<close> and then a \<open>div\<close> of
  class \<open>entry-content\<close> with 300 letters \<open>a\<close>.
\<close>

definition aside_page :: node where
  "aside_page =
     Elem (U ''[document]'') [] []
       [Elem (U ''html'') [] []
          [Elem (U ''body'') [] []
             [Elem (U ''article'') [] []
                [Elem (U ''aside'') [] []
                   [Elem (U ''div'') [U ''article-content''] [] [Text clean_300]]]]]]"

definition other_300 :: pystr where
  "other_300 = replicate 300 98"

definition techcrunch_url :: pystr where
  "techcrunch_url = U ''https://TechCrunch.com/a''"

definition techcrunch_page :: node where
  "techcrunch_page =
     Elem (U ''[document]'') [] []
       [Elem (U ''html'') [] []
          [Elem (U ''body'') [] []
             [Elem (U ''article'') [] [] [Text other_300],
              Elem (U ''div'') [U ''entry-content''] [] [Text clean_300]]]]"

text \<open>
  A world in which the first request fails and every later one returns the page with the
  300 clean characters.
\<close>

definition flaky_env :: env where
  "flaky_env =
     timeout_env\<lparr>http_get := (\<lambda>i u. if i = 1 then RequestException else Parsed content_page)\<rparr>"

section \<open>Properties of the tagger and of the top-keyword computation\<close>

lemma startswith_iff: "startswith s k \<longleftrightarrow> (\<exists>r. s = k @ r)"
  by (induction s k rule: startswith.induct) auto

lemma py_in_iff: "py_in k t \<longleftrightarrow> (\<exists>p s. t = p @ k @ s)"
proof (induction t)
  case Nil
  then show ?case by simp
next
  case (Cons c cs)
  show ?case
  proof
    assume "py_in k (c # cs)"
    then consider "startswith (c # cs) k" | "py_in k cs" by auto
    then show "\<exists>p s. c # cs = p @ k @ s"
    proof cases
      case 1
      then obtain r where "c # cs = k @ r" unfolding startswith_iff by blast
      then have "c # cs = [] @ k @ r" by simp
      then show ?thesis by blast
    next
      case 2
      then obtain p s where "cs = p @ k @ s" using Cons.IH by blast
      then have "c # cs = (c # p) @ k @ s" by simp
      then show ?thesis by blast
    qed
  next
    assume "\<exists>p s. c # cs = p @ k @ s"
    then obtain p s where ps: "c # cs = p @ k @ s" by blast
    show "py_in k (c # cs)"
    proof (cases p)
      case Nil
      with ps have "startswith (c # cs) k" unfolding startswith_iff by simp
      then show ?thesis by simp
    next
      case (Cons a p')
      with ps have "cs = p' @ k @ s" by simp
      then have "py_in k cs" using Cons.IH by blast
      then show ?thesis by simp
    qed
  qed
qed

lemma Counter_snoc: "Counter (xs @ [x]) = counter_add x (Counter xs)"
  by (simp add: Counter_def)

lemma counter_add_keys:
  "map fst (counter_add k cs) = (if k \<in> fst ` set cs then map fst cs else map fst cs @ [k])"
proof (induction cs)
  case Nil
  then show ?case by simp
next
  case (Cons item cs)
  obtain k' c where item: "item = (k', c)" by (cases item)
  show ?case using Cons.IH by (auto simp: item)
qed

lemma counter_add_counts:
  assumes "\<forall>(a, c) \<in> set cs. c = n a" and "distinct (map fst cs)"
      and "k \<notin> fst ` set cs \<Longrightarrow> n k = 0"
  shows "\<forall>(a, c) \<in> set (counter_add k cs). c = (if a = k then n a + 1 else n a)"
  using assms
proof (induction cs)
  case Nil
  then show ?case by simp
next
  case (Cons item cs)
  obtain k' c' where item: "item = (k', c')" by (cases item)
  show ?case
  proof (cases "k = k'")
    case True
    have "\<forall>(a, c) \<in> set cs. a \<noteq> k" using Cons.prems(2) True item by force
    then show ?thesis using Cons.prems(1) True item by auto
  next
    case False
    have "\<forall>(a, c) \<in> set (counter_add k cs). c = (if a = k then n a + 1 else n a)"
    proof (rule Cons.IH)
      show "\<forall>(a, c) \<in> set cs. c = n a" using Cons.prems(1) by simp
      show "distinct (map fst cs)" using Cons.prems(2) by simp
      show "n k = 0" if "k \<notin> fst ` set cs" using that Cons.prems(3) False item by simp
    qed
    then show ?thesis using Cons.prems(1) False item by auto
  qed
qed

lemma first_seen_snoc_old: "a \<in> set xs \<Longrightarrow> first_seen (xs @ [x]) a = first_seen xs a"
  by (simp add: first_seen_def takeWhile_append1)

lemma first_seen_lt: "a \<in> set xs \<Longrightarrow> first_seen xs a < length xs"
  unfolding first_seen_def by (induction xs) auto

lemma first_seen_snoc_new: "x \<notin> set xs \<Longrightarrow> first_seen (xs @ [x]) x = length xs"
  unfolding first_seen_def by (induction xs) auto

lemma Counter_keys_set: "fst ` set (Counter xs) = set xs"
proof (induction xs rule: rev_induct)
  case Nil
  then show ?case by (simp add: Counter_def)
next
  case (snoc x xs)
  have "fst ` set (counter_add x (Counter xs)) = set (map fst (counter_add x (Counter xs)))"
    by simp
  also have "\<dots> = insert x (set xs)"
    unfolding counter_add_keys using snoc.IH by auto
  finally show ?case by (simp add: Counter_snoc)
qed

lemma Counter_keys_distinct: "distinct (map fst (Counter xs))"
  by (induction xs rule: rev_induct) (auto simp: Counter_snoc counter_add_keys Counter_def)

lemma Counter_counts: "\<forall>(k, c) \<in> set (Counter xs). c = count_list xs k"
proof (induction xs rule: rev_induct)
  case Nil
  then show ?case by (simp add: Counter_def)
next
  case (snoc x xs)
  have "count_list xs x = 0" if "x \<notin> fst ` set (Counter xs)"
    using that Counter_keys_set[of xs] by (simp add: count_list_0_iff)
  from counter_add_counts[OF snoc.IH Counter_keys_distinct this]
  show ?case by (auto simp: Counter_snoc)
qed

lemma Counter_keys_order:
  "sorted_wrt (\<lambda>a b. first_seen xs a < first_seen xs b) (map fst (Counter xs))"
proof (induction xs rule: rev_induct)
  case Nil
  then show ?case by (simp add: Counter_def)
next
  case (snoc x xs)
  have old: "sorted_wrt (\<lambda>a b. first_seen (xs @ [x]) a < first_seen (xs @ [x]) b) (map fst (Counter xs))"
    using snoc.IH
    by (rule sorted_wrt_mono_rel[rotated]) (simp add: Counter_keys_set first_seen_snoc_old)
  show ?case
  proof (cases "x \<in> set xs")
    case True
    then show ?thesis using old by (simp add: Counter_snoc counter_add_keys Counter_keys_set)
  next
    case False
    then show ?thesis using old
      by (auto simp add: Counter_snoc counter_add_keys Counter_keys_set sorted_wrt_append
          first_seen_snoc_new first_seen_snoc_old first_seen_lt)
  qed
qed

lemma insort_key_ranked:
  fixes f :: "'b \<Rightarrow> int" and pos :: "'b \<Rightarrow> nat"
  assumes "sorted_wrt (\<lambda>a b. f a < f b \<or> (f a = f b \<and> pos a < pos b)) ys"
      and "\<forall>y\<in>set ys. pos x < pos y"
  shows "sorted_wrt (\<lambda>a b. f a < f b \<or> (f a = f b \<and> pos a < pos b)) (insort_key f x ys)"
  using assms by (induction ys) (auto simp: set_insort_key)

lemma sort_key_ranked:
  fixes f :: "'b \<Rightarrow> int" and pos :: "'b \<Rightarrow> nat"
  assumes "sorted_wrt (\<lambda>a b. pos a < pos b) cs"
  shows "sorted_wrt (\<lambda>a b. f a < f b \<or> (f a = f b \<and> pos a < pos b)) (sort_key f cs)"
  using assms
proof (induction cs)
  case Nil
  then show ?case by simp
next
  case (Cons x cs)
  then show ?case by (simp add: insort_key_ranked)
qed


lemma found_keywords_filter:
  "found_keywords lower vocabulary text found =
     found @ filter (\<lambda>k. py_in (lower k) text) vocabulary"
  by (induction vocabulary arbitrary: found) auto

lemma keyword_hit_iff:
  "keyword_hit lower ks text \<longleftrightarrow> (\<exists>k\<in>set ks. py_in (lower k) text)"
  by (induction ks) auto

lemma categorize_in_first:
  "\<forall>(c', ks') \<in> set pre. \<not> keyword_hit lower ks' text \<Longrightarrow> keyword_hit lower ks text \<Longrightarrow>
   categorize_in lower (pre @ (c, ks) # post) text = c"
  by (induction pre) auto

lemma categorize_in_default:
  "\<forall>(c', ks') \<in> set table. \<not> keyword_hit lower ks' text \<Longrightarrow>
   categorize_in lower table text = default_category"
  by (induction table) auto

lemma ranked_keys:
  "distinct (map fst (sort_key (\<lambda>item. - int (snd item)) (Counter xs))) \<and>
   set (map fst (sort_key (\<lambda>item. - int (snd item)) (Counter xs))) = set xs \<and>
   sorted_wrt (ranks_before xs) (map fst (sort_key (\<lambda>item. - int (snd item)) (Counter xs)))"
proof -
  let ?f = "\<lambda>item :: 'a \<times> nat. - int (snd item)"
  let ?pos = "\<lambda>item :: 'a \<times> nat. first_seen xs (fst item)"
  let ?sorted = "sort_key ?f (Counter xs)"
  have perm: "mset ?sorted = mset (Counter xs)" by simp
  have "mset (map fst ?sorted) = mset (map fst (Counter xs))"
    using perm by (metis mset_map)
  then have d: "distinct (map fst ?sorted)"
    using Counter_keys_distinct[of xs] by (metis mset_eq_imp_distinct_iff)
  have s: "set (map fst ?sorted) = set xs"
    using Counter_keys_set[of xs] by simp
  have "sorted_wrt (\<lambda>a b. ?pos a < ?pos b) (Counter xs)"
    using Counter_keys_order[of xs] by (simp add: sorted_wrt_map)
  then have "sorted_wrt (\<lambda>a b. ?f a < ?f b \<or> (?f a = ?f b \<and> ?pos a < ?pos b)) ?sorted"
    by (rule sort_key_ranked)
  then have "sorted_wrt (\<lambda>a b. ranks_before xs (fst a) (fst b)) ?sorted"
  proof (rule sorted_wrt_mono_rel[rotated])
    fix a b assume a: "a \<in> set ?sorted" and b: "b \<in> set ?sorted"
      and r: "?f a < ?f b \<or> (?f a = ?f b \<and> ?pos a < ?pos b)"
    have "snd a = count_list xs (fst a)" "snd b = count_list xs (fst b)"
      using a b Counter_counts[of xs] by auto
    then show "ranks_before xs (fst a) (fst b)"
      using r unfolding ranks_before_def by auto
  qed
  then have r: "sorted_wrt (ranks_before xs) (map fst ?sorted)"
    by (simp add: sorted_wrt_map)
  show ?thesis using d s r by blast
qed

text \<open>
  Claim C6. For every non-empty list of collected keywords, the top keywords are the first
  ten entries of the ranking of the distinct keywords by frequency, highest first, where
  keywords of equal frequency stand in the order in which they were first seen; so the
  result has \<open>min(distinct keywords, 10)\<close> entries. When no keyword was collected the
  result is the fixed default list, and the result is never empty. The witness is the
  scenario with counts AI 5, GPT 5 and a third keyword 3, AI seen before GPT.
\<close>

theorem top_keywords_ranked:
  "(all_keywords \<noteq> [] \<longrightarrow>
      (\<exists>ranked. distinct ranked \<and> set ranked = set all_keywords \<and>
                sorted_wrt (ranks_before all_keywords) ranked \<and>
                get_top_keywords all_keywords = take 10 ranked) \<and>
      length (get_top_keywords all_keywords) = min (card (set all_keywords)) 10) \<and>
   get_top_keywords [] = default_top_keywords \<and>
   get_top_keywords all_keywords \<noteq> []"
proof -
  let ?ranked = "map fst (sort_key (\<lambda>item. - int (snd item)) (Counter all_keywords))"
  note rk = ranked_keys[of all_keywords]
  have top: "get_top_keywords all_keywords = take 10 ?ranked" if "all_keywords \<noteq> []"
    using that by (simp add: get_top_keywords_def most_common_def take_map)
  have len: "length ?ranked = card (set all_keywords)"
    using rk distinct_card[of ?ranked] by simp
  have ne: "get_top_keywords all_keywords \<noteq> []"
  proof (cases "all_keywords = []")
    case True
    then show ?thesis by (simp add: get_top_keywords_def default_top_keywords_def)
  next
    case False
    then have "set ?ranked \<noteq> {}" using rk by simp
    then have "?ranked \<noteq> []" by fastforce
    then show ?thesis using top[OF False] by simp
  qed
  have "\<exists>ranked. distinct ranked \<and> set ranked = set all_keywords \<and>
                sorted_wrt (ranks_before all_keywords) ranked \<and>
                get_top_keywords all_keywords = take 10 ranked" if "all_keywords \<noteq> []"
    using rk top[OF that] by blast
  moreover have "length (get_top_keywords all_keywords) = min (card (set all_keywords)) 10"
    if "all_keywords \<noteq> []"
    using top[OF that] len by simp
  moreover have "get_top_keywords [] = default_top_keywords"
    by (simp add: get_top_keywords_def)
  ultimately show ?thesis using ne by blast
qed

theorem top_keywords_ranked_witness:
  "sample_keywords \<noteq> [] \<and>
   count_list sample_keywords kw_AI = 5 \<and> count_list sample_keywords kw_GPT = 5 \<and>
   count_list sample_keywords kw_ingongjineung = 3 \<and>
   get_top_keywords sample_keywords = [kw_AI, kw_GPT, kw_ingongjineung] \<and>
   length (get_top_keywords sample_keywords) = min (card (set sample_keywords)) 10"
proof -
  have ne: "sample_keywords \<noteq> []" by (simp add: sample_keywords_def)
  have ev: "get_top_keywords sample_keywords = [kw_AI, kw_GPT, kw_ingongjineung]"
    by (simp add: get_top_keywords_def most_common_def Counter_def sample_keywords_def
        kw_AI_def kw_GPT_def kw_ingongjineung_def)
  have cnt: "count_list sample_keywords kw_AI = 5 \<and> count_list sample_keywords kw_GPT = 5 \<and>
   count_list sample_keywords kw_ingongjineung = 3"
    by (simp add: sample_keywords_def kw_AI_def kw_GPT_def kw_ingongjineung_def)
  from top_keywords_ranked[of sample_keywords] ne
  have "length (get_top_keywords sample_keywords) = min (card (set sample_keywords)) 10"
    by blast
  then show ?thesis using ne ev cnt by blast
qed

text \<open>
  Claim C7. The substring test of the tagger is the mathematical one. For every function
  \<open>lower\<close> in the place of \<open>str.lower()\<close>: the keywords of an article are the
  vocabulary terms whose lower-cased form occurs in the lower-cased
  \<open>title + " " + summary\<close>, in vocabulary order, cut after the fifth. The category is
  the name of the first entry of the category table one of whose keywords occurs,
  lower-cased, in that text, and the default label when no entry has a hit. The case of
  the article text does not matter: two articles whose texts have the same lower-cased
  form get the same keywords and the same category. The witness has a text in capitals
  and small letters that differ from those of the vocabulary, and the scenario with a
  two-entry table and a text that holds a keyword of the second entry only.
\<close>

theorem tagger_keywords_and_category:
  "(py_in k text \<longleftrightarrow> (\<exists>p s. text = p @ k @ s)) \<and>
   extract_keywords lower vocabulary title_text summary_text =
     take 5 (filter (\<lambda>k. py_in (lower k) (lower (title_text @ U '' '' @ summary_text)))
               vocabulary) \<and>
   ((\<forall>(c', ks') \<in> set pre. \<forall>k' \<in> set ks'.
        \<not> py_in (lower k') (lower (title_text @ U '' '' @ summary_text))) \<and>
    (\<exists>k' \<in> set ks. py_in (lower k') (lower (title_text @ U '' '' @ summary_text))) \<longrightarrow>
      categorize_article lower (pre @ (c, ks) # post) title_text summary_text = c) \<and>
   ((\<forall>(c', ks') \<in> set table. \<forall>k' \<in> set ks'.
        \<not> py_in (lower k') (lower (title_text @ U '' '' @ summary_text))) \<longrightarrow>
      categorize_article lower table title_text summary_text = default_category) \<and>
   (lower (title_text @ U '' '' @ summary_text) = lower (other_title @ U '' '' @ other_summary) \<longrightarrow>
      extract_keywords lower vocabulary title_text summary_text
        = extract_keywords lower vocabulary other_title other_summary \<and>
      categorize_article lower table title_text summary_text
        = categorize_article lower table other_title other_summary)"
proof -
  let ?text = "lower (title_text @ U '' '' @ summary_text)"
  have a: "py_in k text \<longleftrightarrow> (\<exists>p s. text = p @ k @ s)" by (rule py_in_iff)
  have b: "extract_keywords lower vocabulary title_text summary_text =
     take 5 (filter (\<lambda>k. py_in (lower k) ?text) vocabulary)"
    by (simp add: extract_keywords_def found_keywords_filter tagger_text_def)
  have c: "categorize_article lower (pre @ (c, ks) # post) title_text summary_text = c"
    if "\<forall>(c', ks') \<in> set pre. \<forall>k' \<in> set ks'. \<not> py_in (lower k') ?text"
      and "\<exists>k' \<in> set ks. py_in (lower k') ?text"
    unfolding categorize_article_def tagger_text_def
    using that by (intro categorize_in_first) (auto simp: keyword_hit_iff)
  have d: "categorize_article lower table title_text summary_text = default_category"
    if "\<forall>(c', ks') \<in> set table. \<forall>k' \<in> set ks'. \<not> py_in (lower k') ?text"
    unfolding categorize_article_def tagger_text_def
    using that by (intro categorize_in_default) (auto simp: keyword_hit_iff)
  have e: "extract_keywords lower vocabulary title_text summary_text
        = extract_keywords lower vocabulary other_title other_summary \<and>
      categorize_article lower table title_text summary_text
        = categorize_article lower table other_title other_summary"
    if "?text = lower (other_title @ U '' '' @ other_summary)"
    using that by (simp add: extract_keywords_def categorize_article_def tagger_text_def)
  show ?thesis using a b c d e by blast
qed

theorem tagger_keywords_and_category_witness:
  "categorize_article ascii_lower sample_categories [49828, 53440, 53944, 50629] []
     = [44592, 49696] \<and>
   categorize_article ascii_lower sample_categories (U ''New ai Tools'') []
     = [65, 73, 32, 45684, 49828] \<and>
   extract_keywords ascii_lower AI_KEYWORDS
       (U ''OPENAI ships gpt and llm for Deep Learning'') (U ''chatgpt'')
     = [U ''AI'', U ''deep learning'', U ''ChatGPT'', U ''OpenAI'', U ''LLM''] \<and>
   extract_keywords ascii_lower AI_KEYWORDS
       (U ''openai SHIPS GPT AND LLM FOR DEEP LEARNING'') (U ''ChatGPT'')
     = [U ''AI'', U ''deep learning'', U ''ChatGPT'', U ''OpenAI'', U ''LLM'']"
proof -
  let ?title = "[49828, 53440, 53944, 50629] :: pystr"
  let ?text = "ascii_lower (?title @ U '' '' @ [])"
  have h1: "\<forall>(c', ks') \<in> set [([65, 73, 32, 45684, 49828], [[65, 73], [51064, 44277, 51648, 45733]])].
     \<forall>k' \<in> set ks'. \<not> py_in (ascii_lower k') ?text"
    by (simp add: ascii_lower_def ascii_lower_cp_def)
  have h2: "\<exists>k' \<in> set [[49828, 53440, 53944, 50629]]. py_in (ascii_lower k') ?text"
    by (simp add: ascii_lower_def ascii_lower_cp_def)
  from tagger_keywords_and_category[where lower = ascii_lower and title_text = ?title
      and summary_text = "[]"
      and pre = "[([65, 73, 32, 45684, 49828], [[65, 73], [51064, 44277, 51648, 45733]])]"
      and ks = "[[49828, 53440, 53944, 50629]]" and c = "[44592, 49696]" and post = "[]"] h1 h2
  have cat: "categorize_article ascii_lower sample_categories ?title [] = [44592, 49696]"
    unfolding sample_categories_def by simp
  have cat2: "categorize_article ascii_lower sample_categories (U ''New ai Tools'') []
     = [65, 73, 32, 45684, 49828]"
    by (simp add: categorize_article_def tagger_text_def sample_categories_def
        ascii_lower_def ascii_lower_cp_def)
  have kw: "extract_keywords ascii_lower AI_KEYWORDS
       (U ''OPENAI ships gpt and llm for Deep Learning'') (U ''chatgpt'')
     = [U ''AI'', U ''deep learning'', U ''ChatGPT'', U ''OpenAI'', U ''LLM'']"
    by (simp add: extract_keywords_def tagger_text_def AI_KEYWORDS_def ascii_lower_def
        ascii_lower_cp_def)
  have same: "ascii_lower (U ''OPENAI ships gpt and llm for Deep Learning'' @ U '' '' @ U ''chatgpt'')
      = ascii_lower (U ''openai SHIPS GPT AND LLM FOR DEEP LEARNING'' @ U '' '' @ U ''ChatGPT'')"
    by (simp add: ascii_lower_def ascii_lower_cp_def)
  from tagger_keywords_and_category[where lower = ascii_lower
      and title_text = "U ''OPENAI ships gpt and llm for Deep Learning''"
      and summary_text = "U ''chatgpt''"
      and other_title = "U ''openai SHIPS GPT AND LLM FOR DEEP LEARNING''"
      and other_summary = "U ''ChatGPT''" and vocabulary = AI_KEYWORDS] same
  have kw2: "extract_keywords ascii_lower AI_KEYWORDS
       (U ''OPENAI ships gpt and llm for Deep Learning'') (U ''chatgpt'')
     = extract_keywords ascii_lower AI_KEYWORDS
       (U ''openai SHIPS GPT AND LLM FOR DEEP LEARNING'') (U ''ChatGPT'')"
    by blast
  show ?thesis using cat cat2 kw kw2 by simp
qed

section \<open>Properties of the crawl loop\<close>

lemma extract_main_content_self:
  "extract_main_content self w soup u = (soup', self', c) \<Longrightarrow>
   self' = self \<or> self' = bump_fallback_used self"
  by (auto simp: extract_main_content_def Let_def split: prod.splits option.splits if_splits)

lemma extract_images_le: "extract_images w soup u = Some imgs \<Longrightarrow> length imgs \<le> 5"
  by (auto simp: extract_images_def)

lemma extract_content_facts:
  assumes "extract_content self w i u = (self', c, imgs)"
  shows "(self' = self \<or> self' = bump_fallback_used self) \<and> length imgs \<le> 5"
  using assms extract_main_content_self extract_images_le
  by (fastforce simp: extract_content_def split: option.splits fetch_outcome.splits prod.splits)

lemma on_exception_facts:
  assumes "on_exception w i self a = (self', r)"
  shows "self' = bump_failed_crawls self \<and>
         (title a = None \<longrightarrow> r = Inl (KeyError (U ''title''))) \<and>
         (title a \<noteq> None \<longrightarrow> (\<exists>a'. r = Inr a' \<and> stub_of a' = stub_of a \<and> well_formed a' \<and>
             crawl_status a' = Some (U ''error'') \<and>
             content a' = Some (case summary a of Some s \<Rightarrow> s | None \<Rightarrow> []) \<and>
             images a' = Some []))"
  using assms
  by (auto simp: on_exception_def Let_def stub_of_def well_formed_def split: option.splits)

lemma crawl_one_total:
  "title a \<noteq> None \<Longrightarrow> \<exists>self' a'. crawl_one w i self a = (self', Inr a')"
  by (auto simp: crawl_one_def on_exception_def Let_def split: option.splits prod.splits)

lemma crawl_one_record:
  assumes "crawl_one w i self a = (self', Inr a')"
  shows "stub_of a' = stub_of a \<and> well_formed a' \<and>
         crawl_status a' \<in> {Some (U ''success''), Some (U ''failed''), Some (U ''error'')} \<and>
         (crawl_status a' = Some (U ''failed'') \<longrightarrow> content a' = Some []) \<and>
         (crawl_status a' = Some (U ''success'') \<longrightarrow> content a' \<noteq> Some [])"
proof (cases "title a = None \<or> link a = None")
  case True
  then have "on_exception w i self a = (self', Inr a')"
    using assms by (auto simp: crawl_one_def split: option.splits)
  from on_exception_facts[OF this] show ?thesis by auto
next
  case False
  then obtain t u where tu: "title a = Some t" "link a = Some u" by auto
  obtain s1 c imgs where ec: "extract_content self w i u = (s1, c, imgs)"
    by (cases "extract_content self w i u") auto
  have a': "a' = a\<lparr>content := Some c, images := Some imgs,
                            content_length := Some (length c),
                            crawl_status := Some (if c \<noteq> [] then U ''success'' else U ''failed''),
                            crawled_at := Some (time_time w i)\<rparr>"
    using assms tu ec by (simp add: crawl_one_def)
  have "length imgs \<le> 5" using extract_content_facts[OF ec] by simp
  then show ?thesis unfolding a' by (simp add: stub_of_def well_formed_def)
qed

lemma crawl_one_stats:
  assumes "crawl_one w i self a = (self', r)"
  shows "same_setup self self' \<and>
         fallback_used (stats self) \<le> fallback_used (stats self') \<and>
         fallback_used (stats self') \<le> fallback_used (stats self) + 1 \<and>
         (\<forall>a'. r = Inr a' \<longrightarrow>
            successful_crawls (stats self') + failed_crawls (stats self') =
            successful_crawls (stats self) + failed_crawls (stats self) + 1)"
proof (cases "title a = None \<or> link a = None")
  case True
  then have "on_exception w i self a = (self', r)"
    using assms by (auto simp: crawl_one_def split: option.splits)
  from on_exception_facts[OF this] show ?thesis
    by (auto simp: same_setup_def bump_failed_crawls_def)
next
  case False
  then obtain t u where tu: "title a = Some t" "link a = Some u" by auto
  obtain s1 c imgs where ec: "extract_content self w i u = (s1, c, imgs)"
    by (cases "extract_content self w i u") auto
  have s': "self' = (if c \<noteq> [] then bump_successful_crawls s1 else bump_failed_crawls s1)"
    using assms tu ec by (simp add: crawl_one_def)
  have "s1 = self \<or> s1 = bump_fallback_used self" using extract_content_facts[OF ec] by simp
  then show ?thesis unfolding s'
    by (auto simp: same_setup_def bump_failed_crawls_def bump_successful_crawls_def
        bump_fallback_used_def)
qed


lemma same_setup_refl: "same_setup s s"
  by (simp add: same_setup_def)

lemma same_setup_trans: "same_setup a b \<Longrightarrow> same_setup b c \<Longrightarrow> same_setup a c"
  by (simp add: same_setup_def)

lemma crawl_loop_total:
  "\<forall>a \<in> set stubs. title a \<noteq> None \<Longrightarrow>
   \<exists>self' crawled. crawl_loop w i stubs self acc = (self', Inr crawled)"
proof (induction stubs arbitrary: i self acc)
  case Nil
  then show ?case by simp
next
  case (Cons a rest)
  then have "title a \<noteq> None" by simp
  from crawl_one_total[OF this] obtain s1 a' where "crawl_one w i self a = (s1, Inr a')"
    by blast
  moreover from Cons have "\<exists>self' crawled. crawl_loop w (Suc i) rest s1 (acc @ [a']) = (self', Inr crawled)"
    by simp
  ultimately show ?case by simp
qed

lemma crawl_loop_nth:
  assumes "crawl_loop w i stubs self acc = (self', Inr crawled)"
  shows "length crawled = length acc + length stubs \<and> take (length acc) crawled = acc \<and>
         same_setup self self' \<and>
         (\<forall>k < length stubs. \<exists>s s'. same_setup self s \<and>
            crawl_one w (i + k) s (stubs ! k) = (s', Inr (crawled ! (length acc + k)))) \<and>
         successful_crawls (stats self') + failed_crawls (stats self') =
           successful_crawls (stats self) + failed_crawls (stats self) + length stubs \<and>
         fallback_used (stats self) \<le> fallback_used (stats self') \<and>
         fallback_used (stats self') \<le> fallback_used (stats self) + length stubs"
  using assms
proof (induction stubs arbitrary: i self acc)
  case Nil
  then show ?case by (simp add: same_setup_refl)
next
  case (Cons a rest)
  obtain s1 r where one: "crawl_one w i self a = (s1, r)" by (cases "crawl_one w i self a")
  obtain a' where r: "r = Inr a'"
    using Cons.prems one by (cases r) auto
  have loop: "crawl_loop w (Suc i) rest s1 (acc @ [a']) = (self', Inr crawled)"
    using Cons.prems one r by simp
  note ih = Cons.IH[OF loop]
  note st = crawl_one_stats[OF one]
  have len: "length crawled = length acc + length (a # rest)" using ih by simp
  have tk: "take (Suc (length acc)) crawled = acc @ [a']" using ih by simp
  then have "take (length acc) (take (Suc (length acc)) crawled) = take (length acc) (acc @ [a'])"
    by simp
  then have tk0: "take (length acc) crawled = acc" by simp
  have "crawled ! length acc = (take (Suc (length acc)) crawled) ! length acc" by simp
  then have hd: "crawled ! length acc = a'" unfolding tk by simp
  have stp: "same_setup self self'"
    using st ih same_setup_trans by blast
  have each: "\<exists>s s'. same_setup self s \<and>
            crawl_one w (i + k) s ((a # rest) ! k) = (s', Inr (crawled ! (length acc + k)))"
    if k: "k < length (a # rest)" for k
  proof (cases k)
    case 0
    then show ?thesis using one r hd same_setup_refl by auto
  next
    case (Suc k')
    then have "k' < length rest" using k by simp
    with ih obtain s s' where "same_setup s1 s"
      "crawl_one w (Suc i + k') s (rest ! k') = (s', Inr (crawled ! (length (acc @ [a']) + k')))"
      by blast
    moreover have "same_setup self s1" using st by simp
    ultimately show ?thesis using Suc same_setup_trans by auto
  qed
  have cnt: "successful_crawls (stats self') + failed_crawls (stats self') =
           successful_crawls (stats self) + failed_crawls (stats self) + length (a # rest)"
    using ih st r by simp
  have fb: "fallback_used (stats self) \<le> fallback_used (stats self') \<and>
         fallback_used (stats self') \<le> fallback_used (stats self) + length (a # rest)"
    using ih st by simp
  show ?case using len tk0 stp each cnt fb by blast
qed

lemma print_statistics_returns: "\<exists>rate. print_statistics self = Inr rate"
  by (simp add: print_statistics_def truediv_def)

lemma crawl_articles_loop:
  "crawl_articles w self stubs = (self', Inr crawled) \<longleftrightarrow>
   crawl_loop w 1 stubs (self\<lparr>stats := (stats self)\<lparr>total_attempts := length stubs\<rparr>\<rparr>) []
     = (self', Inr crawled)"
proof -
  obtain s r where loop:
    "crawl_loop w 1 stubs (self\<lparr>stats := (stats self)\<lparr>total_attempts := length stubs\<rparr>\<rparr>) [] = (s, r)"
    by (cases "crawl_loop w 1 stubs (self\<lparr>stats := (stats self)\<lparr>total_attempts := length stubs\<rparr>\<rparr>) []")
  obtain rate where rate: "print_statistics s = Inr rate"
    using print_statistics_returns by blast
  show ?thesis using loop rate
    by (cases r) (simp_all add: crawl_articles_def)
qed

lemma ArticleCrawler_simps:
  "config (ArticleCrawler cfg) = cfg"
  "stats (ArticleCrawler cfg) =
     \<lparr>total_attempts = 0, successful_crawls = 0, failed_crawls = 0, fallback_used = 0\<rparr>"
  by (simp_all add: ArticleCrawler_def)

lemma crawl_one_fetch_error:
  assumes "title a = Some t" and "link a = Some u"
      and "TIMEOUT (config self) = None \<or> http_get w i u = RequestException \<or>
           http_get w i u = OtherException"
  shows "crawl_one w i self a =
           (bump_failed_crawls self,
            Inr (a\<lparr>content := Some [], images := Some [], content_length := Some 0,
                   crawl_status := Some (U ''failed''), crawled_at := Some (time_time w i)\<rparr>))"
proof -
  have "extract_content self w i u = (self, [], [])"
    using assms(3) by (auto simp: extract_content_def split: option.splits)
  then show ?thesis using assms(1,2) by (simp add: crawl_one_def)
qed

lemma extract_content_without_TIMEOUT:
  "extract_content (ArticleCrawler Config) w i u = (ArticleCrawler Config, [], [])"
  by (simp add: extract_content_def ArticleCrawler_simps Config_def)

lemma crawl_one_error_status:
  assumes "crawl_one w i self a = (self', Inr a')"
  shows "crawl_status a' = Some (U ''error'') \<longleftrightarrow> link a = None"
proof (cases "title a = None \<or> link a = None")
  case True
  then have oe: "on_exception w i self a = (self', Inr a')"
    using assms by (auto simp: crawl_one_def split: option.splits)
  from on_exception_facts[OF oe] have "title a \<noteq> None" by auto
  with on_exception_facts[OF oe] True show ?thesis by auto
next
  case False
  then obtain t u where tu: "title a = Some t" "link a = Some u" by auto
  obtain s1 c imgs where ec: "extract_content self w i u = (s1, c, imgs)"
    by (cases "extract_content self w i u") auto
  show ?thesis using assms tu ec by (auto simp add: crawl_one_def split: if_splits)
qed

lemma crawl_one_no_link:
  assumes "crawl_one w i self a = (self', Inr a')" and "link a = None"
  shows "content a' = Some (case summary a of Some s \<Rightarrow> s | None \<Rightarrow> []) \<and> images a' = Some []"
proof -
  have oe: "on_exception w i self a = (self', Inr a')"
    using assms by (auto simp: crawl_one_def split: option.splits)
  from on_exception_facts[OF oe] have "title a \<noteq> None" by auto
  with on_exception_facts[OF oe] show ?thesis by auto
qed

lemma crawl_articles_nth:
  assumes "crawl_articles w self stubs = (self', Inr crawled)" and "k < length stubs"
  shows "\<exists>s s'. config s = config self \<and>
           crawl_one w (Suc k) s (stubs ! k) = (s', Inr (crawled ! k))"
proof -
  from assms(1) have "crawl_loop w 1 stubs
      (self\<lparr>stats := (stats self)\<lparr>total_attempts := length stubs\<rparr>\<rparr>) [] = (self', Inr crawled)"
    by (simp only: crawl_articles_loop)
  from crawl_loop_nth[OF this] assms(2)
  obtain s s' where "same_setup (self\<lparr>stats := (stats self)\<lparr>total_attempts := length stubs\<rparr>\<rparr>) s"
    "crawl_one w (1 + k) s (stubs ! k) = (s', Inr (crawled ! (length ([]::article list) + k)))"
    by blast
  then show ?thesis by (auto simp: same_setup_def)
qed

text \<open>
  Claim C1. For every batch of stubs that have a title (in particular for stubs that have
  title, link and summary), in every world and from every state of the crawler,
  \<open>crawl_articles\<close> returns to its caller, and it returns a list as long as the batch
  whose \<open>k\<close>-th record is the \<open>k\<close>-th stub with the five crawl fields written: none is
  dropped, none is doubled, the order is kept. Every record ends with one of the three
  statuses, so a stub whose processing failed does not stop the stubs after it.
\<close>

theorem crawl_articles_returns_every_stub:
  assumes "\<forall>a \<in> set stubs. title a \<noteq> None"
  shows "\<exists>self' crawled.
           crawl_articles w self stubs = (self', Inr crawled) \<and>
           length crawled = length stubs \<and>
           map stub_of crawled = map stub_of stubs \<and>
           (\<forall>a' \<in> set crawled.
              crawl_status a' \<in> {Some (U ''success''), Some (U ''failed''), Some (U ''error'')})"
proof -
  from crawl_loop_total[OF assms]
  obtain self' crawled where loop: "crawl_loop w 1 stubs
      (self\<lparr>stats := (stats self)\<lparr>total_attempts := length stubs\<rparr>\<rparr>) [] = (self', Inr crawled)"
    by blast
  then have run: "crawl_articles w self stubs = (self', Inr crawled)"
    by (simp only: crawl_articles_loop)
  have len: "length crawled = length stubs" using crawl_loop_nth[OF loop] by simp
  have each: "stub_of (crawled ! k) = stub_of (stubs ! k) \<and>
      crawl_status (crawled ! k) \<in> {Some (U ''success''), Some (U ''failed''), Some (U ''error'')}"
    if "k < length stubs" for k
  proof -
    from crawl_articles_nth[OF run that] obtain s s' where
      "crawl_one w (Suc k) s (stubs ! k) = (s', Inr (crawled ! k))" by blast
    from crawl_one_record[OF this] show ?thesis by blast
  qed
  have m: "map stub_of crawled = map stub_of stubs"
    using len each by (intro nth_equalityI) auto
  have st: "\<forall>a' \<in> set crawled.
      crawl_status a' \<in> {Some (U ''success''), Some (U ''failed''), Some (U ''error'')}"
  proof
    fix a' assume "a' \<in> set crawled"
    then obtain k where k: "k < length crawled" "crawled ! k = a'"
      unfolding in_set_conv_nth by blast
    from k(1) len have "k < length stubs" by simp
    from each[OF this] k(2) show
      "crawl_status a' \<in> {Some (U ''success''), Some (U ''failed''), Some (U ''error'')}"
      by simp
  qed
  show ?thesis
    by (intro exI conjI) (rule run, rule len, rule m, rule st)
qed

lemma crawl_one_collector_stub:
  "crawl_one timeout_env (Suc 0) s collector_stub = (bump_failed_crawls s, Inr error_record)"
  by (simp add: crawl_one_def on_exception_def timeout_env_def collector_stub_def Let_def
      error_record_def)

lemma crawl_one_sample_stub:
  "crawl_one timeout_env i s sample_stub =
     (bump_failed_crawls s,
      Inr (sample_stub\<lparr>content := Some [], images := Some [], content_length := Some 0,
                       crawl_status := Some (U ''failed''), crawled_at := Some i\<rparr>))"
proof -
  have "title sample_stub = Some (U ''Sample AI Launch'')"
       "link sample_stub = Some (U ''https://example.com/a'')"
    by (simp_all add: sample_stub_def)
  moreover have "http_get timeout_env i (U ''https://example.com/a'') = RequestException"
    by (simp add: timeout_env_def)
  ultimately show ?thesis
    using crawl_one_fetch_error[of sample_stub _ _ s timeout_env i]
    by (simp add: timeout_env_def)
qed

lemma timeout_run_one:
  "crawl_articles timeout_env s [sample_stub] =
     (bump_failed_crawls (s\<lparr>stats := (stats s)\<lparr>total_attempts := 1\<rparr>\<rparr>), Inr [failed_record])"
proof -
  have "crawl_loop timeout_env 1 [sample_stub] (s\<lparr>stats := (stats s)\<lparr>total_attempts := 1\<rparr>\<rparr>) []
      = (bump_failed_crawls (s\<lparr>stats := (stats s)\<lparr>total_attempts := 1\<rparr>\<rparr>), Inr [failed_record])"
    by (simp add: crawl_one_sample_stub failed_record_def)
  then have "crawl_loop timeout_env 1 [sample_stub]
      (s\<lparr>stats := (stats s)\<lparr>total_attempts := length [sample_stub]\<rparr>\<rparr>) []
      = (bump_failed_crawls (s\<lparr>stats := (stats s)\<lparr>total_attempts := 1\<rparr>\<rparr>), Inr [failed_record])"
    by simp
  then show ?thesis by (simp only: crawl_articles_loop)
qed

lemma timeout_run_two:
  "crawl_articles timeout_env s [collector_stub, sample_stub] =
     (bump_failed_crawls (bump_failed_crawls (s\<lparr>stats := (stats s)\<lparr>total_attempts := 2\<rparr>\<rparr>)),
      Inr [error_record, second_failed_record])"
proof -
  have "crawl_loop timeout_env 1 [collector_stub, sample_stub]
      (s\<lparr>stats := (stats s)\<lparr>total_attempts := length [collector_stub, sample_stub]\<rparr>\<rparr>) []
      = (bump_failed_crawls (bump_failed_crawls (s\<lparr>stats := (stats s)\<lparr>total_attempts := 2\<rparr>\<rparr>)),
      Inr [error_record, second_failed_record])"
    by (simp add: crawl_one_sample_stub crawl_one_collector_stub second_failed_record_def
        numeral_2_eq_2)
  then show ?thesis by (simp only: crawl_articles_loop)
qed

theorem crawl_articles_returns_every_stub_witness:
  "title collector_stub \<noteq> None \<and> title sample_stub \<noteq> None \<and>
   snd (crawl_articles timeout_env (ArticleCrawler timeout_config) [collector_stub, sample_stub])
     = Inr [error_record, second_failed_record] \<and>
   map stub_of [error_record, second_failed_record] = map stub_of [collector_stub, sample_stub] \<and>
   map crawl_status [error_record, second_failed_record] = [Some (U ''error''), Some (U ''failed'')]"
proof -
  have t: "title collector_stub \<noteq> None" "title sample_stub \<noteq> None"
    by (simp_all add: collector_stub_def sample_stub_def)
  then have h: "\<forall>a \<in> set [collector_stub, sample_stub]. title a \<noteq> None" by simp
  from crawl_articles_returns_every_stub[OF h, of timeout_env "ArticleCrawler timeout_config"]
  obtain self' crawled where
    run: "crawl_articles timeout_env (ArticleCrawler timeout_config) [collector_stub, sample_stub]
            = (self', Inr crawled)"
    and m: "map stub_of crawled = map stub_of [collector_stub, sample_stub]"
    by blast
  from run have c: "crawled = [error_record, second_failed_record]"
    by (simp add: timeout_run_two)
  have s: "map crawl_status [error_record, second_failed_record] = [Some (U ''error''), Some (U ''failed'')]"
    by (simp add: error_record_def second_failed_record_def)
  show ?thesis using t run m c s by simp
qed

text \<open>
  Claim C5. Every record that a run of \<open>crawl_articles\<close> returns has a content string
  (never \<open>None\<close>) whose length is the stored \<open>content_length\<close>, and an images list of
  at most five entries; a record with status \<open>failed\<close> has the empty string as content.
  The keyword list that the tagger computes for an article has at most five entries.
\<close>

theorem enriched_record_invariant:
  "(crawl_articles w self stubs = (self', Inr crawled) \<longrightarrow>
      (\<forall>a \<in> set crawled.
         well_formed a \<and> (crawl_status a = Some (U ''failed'') \<longrightarrow> content a = Some []))) \<and>
   length (extract_keywords lower vocabulary title_text summary_text) \<le> 5"
proof -
  have "well_formed a \<and> (crawl_status a = Some (U ''failed'') \<longrightarrow> content a = Some [])"
    if run: "crawl_articles w self stubs = (self', Inr crawled)" and a: "a \<in> set crawled" for a
  proof -
    from run have loop: "crawl_loop w 1 stubs
      (self\<lparr>stats := (stats self)\<lparr>total_attempts := length stubs\<rparr>\<rparr>) [] = (self', Inr crawled)"
      by (simp only: crawl_articles_loop)
    have len: "length crawled = length stubs" using crawl_loop_nth[OF loop] by simp
    from a obtain k where k: "k < length crawled" "crawled ! k = a"
      unfolding in_set_conv_nth by blast
    from k(1) len have "k < length stubs" by simp
    from crawl_articles_nth[OF run this] obtain s s' where
      "crawl_one w (Suc k) s (stubs ! k) = (s', Inr (crawled ! k))" by blast
    from crawl_one_record[OF this] k(2) show ?thesis by simp
  qed
  moreover have "length (extract_keywords lower vocabulary title_text summary_text) \<le> 5"
    by (simp add: extract_keywords_def)
  ultimately show ?thesis by blast
qed

theorem enriched_record_invariant_witness:
  "snd (crawl_articles timeout_env (ArticleCrawler timeout_config) [collector_stub, sample_stub])
     = Inr [error_record, second_failed_record] \<and>
   well_formed error_record \<and> well_formed second_failed_record \<and>
   content error_record = Some (U ''short'') \<and> content_length error_record = Some 5 \<and>
   content second_failed_record = Some [] \<and> content_length second_failed_record = Some 0"
proof -
  have run: "crawl_articles timeout_env (ArticleCrawler timeout_config) [collector_stub, sample_stub]
     = (bump_failed_crawls (bump_failed_crawls
          ((ArticleCrawler timeout_config)\<lparr>stats := (stats (ArticleCrawler timeout_config))\<lparr>total_attempts := 2\<rparr>\<rparr>)),
        Inr [error_record, second_failed_record])"
    by (rule timeout_run_two)
  from enriched_record_invariant[of timeout_env "ArticleCrawler timeout_config"
      "[collector_stub, sample_stub]" _ "[error_record, second_failed_record]"] run
  have "well_formed error_record \<and> well_formed second_failed_record" by simp
  moreover have "content error_record = Some (U ''short'') \<and> content_length error_record = Some 5 \<and>
   content second_failed_record = Some [] \<and> content_length second_failed_record = Some 0"
    by (simp add: error_record_def second_failed_record_def)
  ultimately show ?thesis using run by simp
qed

text \<open>
  Claim C2, as stated, fails. A page request that raises is caught inside
  \<open>_extract_content\<close>, which returns empty content; the loop body then sees a normal
  return and writes the status \<open>failed\<close> and the empty string. For the stub of the
  scenario and a request that times out the record is not the one the claim describes.
\<close>

theorem fetch_timeout_counterexample:
  "snd (crawl_articles timeout_env (ArticleCrawler timeout_config) [sample_stub])
     = Inr [failed_record] \<and>
   crawl_status failed_record = Some (U ''failed'') \<and>
   crawl_status failed_record \<noteq> Some (U ''error'') \<and>
   content failed_record = Some [] \<and>
   content failed_record \<noteq> Some (U ''short'')"
  by (simp add: timeout_run_one failed_record_def)

lemma stub_of_fields:
  "stub_of a = stub_of b \<Longrightarrow> title a = title b \<and> link a = link b \<and> summary a = summary b"
proof -
  assume e: "stub_of a = stub_of b"
  have "title (stub_of a) = title a" "link (stub_of a) = link a" "summary (stub_of a) = summary a"
       "title (stub_of b) = title b" "link (stub_of b) = link b" "summary (stub_of b) = summary b"
    by (simp_all add: stub_of_def)
  then show ?thesis using e by metis
qed

lemma crawl_loop_refs_frame:
  assumes "crawl_loop_refs w i refs self heap acc = (self', heap', Inr out)"
  shows "out = acc @ refs \<and> same_setup self self' \<and>
         (\<forall>r. r \<notin> set refs \<longrightarrow> heap' r = heap r) \<and>
         (\<forall>r. stub_of (heap' r) = stub_of (heap r))"
  using assms
proof (induction refs arbitrary: i self heap acc)
  case Nil
  then show ?case by (simp add: same_setup_refl)
next
  case (Cons r rest)
  obtain s1 res where one: "crawl_one w i self (heap r) = (s1, res)"
    by (cases "crawl_one w i self (heap r)")
  obtain a' where res: "res = Inr a'" using Cons.prems one by (cases res) auto
  have loop: "crawl_loop_refs w (Suc i) rest s1 (heap(r := a')) (acc @ [r]) = (self', heap', Inr out)"
    using Cons.prems one res by simp
  note ih = Cons.IH[OF loop]
  have st: "stub_of a' = stub_of (heap r)"
    using crawl_one_record one res by blast
  have s: "same_setup self s1" using crawl_one_stats[OF one] by simp
  have "out = acc @ r # rest" using ih by simp
  moreover have "same_setup self self'" using s ih same_setup_trans by blast
  moreover have "\<forall>x. x \<notin> set (r # rest) \<longrightarrow> heap' x = heap x" using ih by auto
  moreover have "\<forall>x. stub_of (heap' x) = stub_of (heap x)"
  proof
    fix x
    have "stub_of (heap' x) = stub_of ((heap(r := a')) x)" using ih by blast
    then show "stub_of (heap' x) = stub_of (heap x)" using st by (cases "x = r") auto
  qed
  ultimately show ?case by blast
qed

lemma crawl_loop_refs_nth:
  assumes "crawl_loop_refs w i refs self heap acc = (self', heap', Inr out)"
      and "k < length refs" and "refs ! k \<notin> set (drop (Suc k) refs)"
  shows "\<exists>s s' h. same_setup self s \<and> stub_of h = stub_of (heap (refs ! k)) \<and>
           crawl_one w (i + k) s h = (s', Inr (heap' (refs ! k)))"
  using assms
proof (induction refs arbitrary: i self heap acc k)
  case Nil
  then show ?case by simp
next
  case (Cons r rest)
  obtain s1 res where one: "crawl_one w i self (heap r) = (s1, res)"
    by (cases "crawl_one w i self (heap r)")
  obtain a' where res: "res = Inr a'" using Cons.prems(1) one by (cases res) auto
  have loop: "crawl_loop_refs w (Suc i) rest s1 (heap(r := a')) (acc @ [r]) = (self', heap', Inr out)"
    using Cons.prems(1) one res by simp
  have st: "stub_of a' = stub_of (heap r)"
    using crawl_one_record one res by blast
  have s: "same_setup self s1" using crawl_one_stats[OF one] by simp
  show ?case
  proof (cases k)
    case 0
    then have "r \<notin> set rest" using Cons.prems(3) by simp
    then have "heap' r = (heap(r := a')) r" using crawl_loop_refs_frame[OF loop] by blast
    then have "heap' r = a'" by simp
    then show ?thesis using 0 one res same_setup_refl by auto
  next
    case (Suc k')
    then have k': "k' < length rest" "rest ! k' \<notin> set (drop (Suc k') rest)"
      using Cons.prems(2,3) by simp_all
    from Cons.IH[OF loop k'] obtain s s' h where
      a: "same_setup s1 s" and b: "stub_of h = stub_of ((heap(r := a')) (rest ! k'))"
      and c: "crawl_one w (Suc i + k') s h = (s', Inr (heap' (rest ! k')))" by blast
    have "stub_of h = stub_of (heap (rest ! k'))"
      using b st by (cases "rest ! k' = r") auto
    then show ?thesis using a c s Suc same_setup_trans by auto
  qed
qed

lemma crawl_articles_refs_loop:
  "crawl_articles_refs w self heap refs = (self', heap', Inr crawled) \<longleftrightarrow>
   crawl_loop_refs w 1 refs (self\<lparr>stats := (stats self)\<lparr>total_attempts := length refs\<rparr>\<rparr>) heap []
     = (self', heap', Inr crawled)"
proof -
  obtain s h r where loop:
    "crawl_loop_refs w 1 refs (self\<lparr>stats := (stats self)\<lparr>total_attempts := length refs\<rparr>\<rparr>) heap []
       = (s, h, r)"
    by (cases "crawl_loop_refs w 1 refs (self\<lparr>stats := (stats self)\<lparr>total_attempts := length refs\<rparr>\<rparr>) heap []")
  obtain rate where rate: "print_statistics s = Inr rate"
    using print_statistics_returns by blast
  show ?thesis using loop rate
    by (cases r) (simp_all add: crawl_articles_refs_def)
qed

lemma crawl_loop_refs_values:
  assumes "distinct refs"
      and "crawl_loop_refs w i refs self heap accr = (self', heap', Inr out)"
  shows "crawl_loop w i (map heap refs) self acc = (self', Inr (acc @ map heap' refs))"
  using assms
proof (induction refs arbitrary: i self heap accr acc)
  case Nil
  then show ?case by simp
next
  case (Cons r rest)
  obtain s1 res where one: "crawl_one w i self (heap r) = (s1, res)"
    by (cases "crawl_one w i self (heap r)")
  obtain a' where res: "res = Inr a'" using Cons.prems(2) one by (cases res) auto
  have loop: "crawl_loop_refs w (Suc i) rest s1 (heap(r := a')) (accr @ [r]) = (self', heap', Inr out)"
    using Cons.prems(2) one res by simp
  have d: "distinct rest" "r \<notin> set rest" using Cons.prems(1) by simp_all
  have "heap' r = (heap(r := a')) r" using crawl_loop_refs_frame[OF loop] d(2) by blast
  then have hr: "heap' r = a'" by simp
  have m: "map (heap(r := a')) rest = map heap rest" using d(2) by auto
  from Cons.IH[OF d(1) loop, of "acc @ [a']"]
  have "crawl_loop w (Suc i) (map heap rest) s1 (acc @ [a']) = (self', Inr ((acc @ [a']) @ map heap' rest))"
    unfolding m .
  then show ?case using one res hr by simp
qed

text \<open>
  Claim C2, amended. The batch is a list of references to dicts. In a run that returns,
  the list returned is the batch itself. For the \<open>k\<close>-th position of the batch, if its
  dict does not occur again at a later position: when the dict has a link and the page
  request made for this position raises (a request error, any other exception, or the
  read of the missing \<open>TIMEOUT\<close> attribute), the dict ends with the status \<open>failed\<close>,
  the empty string as content, content length 0 and no images. The status \<open>error\<close> is
  what it ends with exactly when it has no key \<open>link\<close>, and then its content is its
  summary (the empty string when there is none) and the images list is empty. Without
  the condition on later positions the statement fails: a later pass over the same dict
  overwrites what this pass wrote.
\<close>

theorem fetch_error_gives_failed_record:
  assumes "crawl_articles_refs w self heap refs = (self', heap', Inr crawled)"
      and "k < length refs"
      and "refs ! k \<notin> set (drop (Suc k) refs)"
  shows "crawled = refs \<and>
         (link (heap (refs ! k)) = Some u \<and>
            (TIMEOUT (config self) = None \<or> http_get w (Suc k) u = RequestException \<or>
             http_get w (Suc k) u = OtherException) \<longrightarrow>
          crawl_status (heap' (crawled ! k)) = Some (U ''failed'') \<and>
          content (heap' (crawled ! k)) = Some [] \<and>
          images (heap' (crawled ! k)) = Some [] \<and>
          content_length (heap' (crawled ! k)) = Some 0) \<and>
         (crawl_status (heap' (crawled ! k)) = Some (U ''error'') \<longleftrightarrow>
            link (heap (refs ! k)) = None) \<and>
         (link (heap (refs ! k)) = None \<longrightarrow>
          content (heap' (crawled ! k))
            = Some (case summary (heap (refs ! k)) of Some s \<Rightarrow> s | None \<Rightarrow> []) \<and>
          images (heap' (crawled ! k)) = Some [])"
proof -
  from assms(1) have loop: "crawl_loop_refs w 1 refs
      (self\<lparr>stats := (stats self)\<lparr>total_attempts := length refs\<rparr>\<rparr>) heap [] = (self', heap', Inr crawled)"
    by (simp only: crawl_articles_refs_loop)
  have cr: "crawled = refs" using crawl_loop_refs_frame[OF loop] by simp
  from crawl_loop_refs_nth[OF loop assms(2,3)] obtain s s' h where
    su: "same_setup (self\<lparr>stats := (stats self)\<lparr>total_attempts := length refs\<rparr>\<rparr>) s" and
    sh: "stub_of h = stub_of (heap (refs ! k))" and
    one0: "crawl_one w (1 + k) s h = (s', Inr (heap' (refs ! k)))" by blast
  have one: "crawl_one w (Suc k) s h = (s', Inr (heap' (refs ! k)))" using one0 by simp
  have cfg: "config s = config self" using su by (simp add: same_setup_def)
  note f = stub_of_fields[OF sh]
  have a: "crawl_status (heap' (refs ! k)) = Some (U ''failed'') \<and>
          content (heap' (refs ! k)) = Some [] \<and>
          images (heap' (refs ! k)) = Some [] \<and>
          content_length (heap' (refs ! k)) = Some 0"
    if l: "link (heap (refs ! k)) = Some u"
      and e: "TIMEOUT (config self) = None \<or> http_get w (Suc k) u = RequestException \<or>
             http_get w (Suc k) u = OtherException"
  proof -
    have lh: "link h = Some u" using l f by simp
    have "title h \<noteq> None"
      using one lh by (auto simp: crawl_one_def on_exception_def Let_def split: option.splits)
    then obtain t where t: "title h = Some t" by blast
    from e cfg have "TIMEOUT (config s) = None \<or> http_get w (Suc k) u = RequestException \<or>
             http_get w (Suc k) u = OtherException" by simp
    from crawl_one_fetch_error[OF t lh this] one show ?thesis by simp
  qed
  have b: "crawl_status (heap' (refs ! k)) = Some (U ''error'') \<longleftrightarrow> link (heap (refs ! k)) = None"
    using crawl_one_error_status[OF one] f by simp
  have c: "content (heap' (refs ! k))
            = Some (case summary (heap (refs ! k)) of Some s \<Rightarrow> s | None \<Rightarrow> []) \<and>
          images (heap' (refs ! k)) = Some []" if "link (heap (refs ! k)) = None"
  proof -
    have "link h = None" using that f by simp
    from crawl_one_no_link[OF one this] f show ?thesis by simp
  qed
  show ?thesis using a b c unfolding cr by blast
qed


lemma timeout_run_one_refs:
  "crawl_articles_refs timeout_env s (\<lambda>r. sample_stub) [0] =
     (bump_failed_crawls (s\<lparr>stats := (stats s)\<lparr>total_attempts := 1\<rparr>\<rparr>),
      (\<lambda>r. sample_stub)(0 := failed_record), Inr [0])"
proof -
  have "crawl_loop_refs timeout_env 1 [0]
      (s\<lparr>stats := (stats s)\<lparr>total_attempts := length [0::nat]\<rparr>\<rparr>) (\<lambda>r. sample_stub) []
      = (bump_failed_crawls (s\<lparr>stats := (stats s)\<lparr>total_attempts := 1\<rparr>\<rparr>),
         (\<lambda>r. sample_stub)(0 := failed_record), Inr [0])"
    by (simp add: crawl_one_sample_stub failed_record_def)
  then show ?thesis by (simp only: crawl_articles_refs_loop)
qed

theorem fetch_error_gives_failed_record_witness:
  "snd (snd (crawl_articles_refs timeout_env (ArticleCrawler timeout_config)
               (\<lambda>r. sample_stub) [0])) = Inr [0] \<and>
   link sample_stub = Some (U ''https://example.com/a'') \<and>
   http_get timeout_env (Suc 0) (U ''https://example.com/a'') = RequestException \<and>
   fst (snd (crawl_articles_refs timeout_env (ArticleCrawler timeout_config)
               (\<lambda>r. sample_stub) [0])) 0 = failed_record \<and>
   crawl_status failed_record = Some (U ''failed'') \<and> content failed_record = Some [] \<and>
   images failed_record = Some [] \<and> content_length failed_record = Some 0"
proof -
  let ?heap = "(\<lambda>r. sample_stub) :: heap"
  let ?heap' = "?heap(0 := failed_record)"
  have run: "crawl_articles_refs timeout_env (ArticleCrawler timeout_config) ?heap [0] =
     (bump_failed_crawls ((ArticleCrawler timeout_config)
        \<lparr>stats := (stats (ArticleCrawler timeout_config))\<lparr>total_attempts := 1\<rparr>\<rparr>),
      ?heap', Inr [0])"
    by (rule timeout_run_one_refs)
  have k: "0 < length [0::nat]" by simp
  have n: "[0::nat] ! 0 \<notin> set (drop (Suc 0) [0])" by simp
  have l: "link (?heap ([0] ! 0)) = Some (U ''https://example.com/a'')"
    by (simp add: sample_stub_def)
  have f: "http_get timeout_env (Suc 0) (U ''https://example.com/a'') = RequestException"
    by (simp add: timeout_env_def)
  from fetch_error_gives_failed_record[OF run k n, of "U ''https://example.com/a''"] l f
  have "crawl_status (?heap' ([0] ! 0)) = Some (U ''failed'') \<and>
        content (?heap' ([0] ! 0)) = Some [] \<and>
        images (?heap' ([0] ! 0)) = Some [] \<and> content_length (?heap' ([0] ! 0)) = Some 0"
    by blast
  then have r: "crawl_status failed_record = Some (U ''failed'') \<and> content failed_record = Some [] \<and>
   images failed_record = Some [] \<and> content_length failed_record = Some 0" by simp
  have l2: "link sample_stub = Some (U ''https://example.com/a'')" using l by simp
  have h0: "fst (snd (crawl_articles_refs timeout_env (ArticleCrawler timeout_config) ?heap [0])) 0
      = failed_record" by (simp add: run)
  have o: "snd (snd (crawl_articles_refs timeout_env (ArticleCrawler timeout_config) ?heap [0]))
      = Inr [0]" by (simp add: run)
  show ?thesis using o l2 f h0 r by simp
qed

lemma used_crawler_eq:
  "used_crawler = bump_failed_crawls ((ArticleCrawler timeout_config)
        \<lparr>stats := (stats (ArticleCrawler timeout_config))\<lparr>total_attempts := 1\<rparr>\<rparr>)"
  by (simp add: used_crawler_def timeout_run_one)

text \<open>
  Claim C10 fails on the code. \<open>total_attempts\<close> is assigned at the start of every run,
  while \<open>successful_crawls\<close>, \<open>failed_crawls\<close> and \<open>fallback_used\<close> are only ever
  incremented and nothing resets them, although \<open>_print_statistics\<close> computes the success
  rate from the two kinds together. On the second run of one crawler over one stub the
  attempts are 1 and the outcomes 2.
\<close>

theorem reused_crawler_counts_disagree:
  "snd (crawl_articles timeout_env used_crawler [sample_stub]) = Inr [failed_record] \<and>
   total_attempts (stats (fst (crawl_articles timeout_env used_crawler [sample_stub]))) = 1 \<and>
   successful_crawls (stats (fst (crawl_articles timeout_env used_crawler [sample_stub]))) +
   failed_crawls (stats (fst (crawl_articles timeout_env used_crawler [sample_stub]))) = 2"
  by (simp add: timeout_run_one used_crawler_eq bump_failed_crawls_def ArticleCrawler_simps)

text \<open>
  What one run does to the counters. After a run on \<open>N\<close> stubs that returns,
  \<open>total_attempts\<close> is \<open>N\<close>, the sum of \<open>successful_crawls\<close> and \<open>failed_crawls\<close> has
  grown by exactly \<open>N\<close> (each stub increments exactly one of the two, on the exception
  path too) and \<open>fallback_used\<close> by at most \<open>N\<close>. For a crawler as \<open>__init__\<close> leaves it
  this gives \<open>successful_crawls + failed_crawls = total_attempts\<close> and
  \<open>fallback_used \<le> total_attempts\<close>; on the empty batch such a crawler is unchanged, with
  all four counters zero. The statistics printout never divides by zero.
\<close>

theorem crawl_statistics:
  "(crawl_articles w self stubs = (self', Inr crawled) \<longrightarrow>
      total_attempts (stats self') = length stubs \<and>
      successful_crawls (stats self') + failed_crawls (stats self') =
        successful_crawls (stats self) + failed_crawls (stats self) + length stubs \<and>
      fallback_used (stats self') \<le> fallback_used (stats self) + length stubs) \<and>
   (crawl_articles w (ArticleCrawler cfg) stubs = (fresh', Inr crawled') \<longrightarrow>
      total_attempts (stats fresh') = length stubs \<and>
      successful_crawls (stats fresh') + failed_crawls (stats fresh') = total_attempts (stats fresh') \<and>
      fallback_used (stats fresh') \<le> total_attempts (stats fresh')) \<and>
   crawl_articles w (ArticleCrawler cfg) [] = (ArticleCrawler cfg, Inr []) \<and>
   stats (ArticleCrawler cfg) =
     \<lparr>total_attempts = 0, successful_crawls = 0, failed_crawls = 0, fallback_used = 0\<rparr> \<and>
   print_statistics self \<noteq> Inl ZeroDivisionError"
proof -
  have gen: "total_attempts (stats s') = length stubs \<and>
      successful_crawls (stats s') + failed_crawls (stats s') =
        successful_crawls (stats s) + failed_crawls (stats s) + length stubs \<and>
      fallback_used (stats s') \<le> fallback_used (stats s) + length stubs"
    if "crawl_articles w s stubs = (s', Inr out)" for s s' out
  proof -
    from that have loop: "crawl_loop w 1 stubs
      (s\<lparr>stats := (stats s)\<lparr>total_attempts := length stubs\<rparr>\<rparr>) [] = (s', Inr out)"
      by (simp only: crawl_articles_loop)
    from crawl_loop_nth[OF loop] show ?thesis by (simp add: same_setup_def)
  qed
  have fresh: "total_attempts (stats fresh') = length stubs \<and>
      successful_crawls (stats fresh') + failed_crawls (stats fresh') = total_attempts (stats fresh') \<and>
      fallback_used (stats fresh') \<le> total_attempts (stats fresh')"
    if "crawl_articles w (ArticleCrawler cfg) stubs = (fresh', Inr crawled')"
    using gen[OF that] by (simp add: ArticleCrawler_simps)
  have empty: "crawl_articles w (ArticleCrawler cfg) [] = (ArticleCrawler cfg, Inr [])"
    by (simp add: crawl_articles_def print_statistics_def ArticleCrawler_def)
  have pr: "print_statistics self \<noteq> Inl ZeroDivisionError"
    using print_statistics_returns[of self] by auto
  show ?thesis using gen fresh empty pr ArticleCrawler_simps(2) by blast
qed

theorem crawl_statistics_witness:
  "snd (crawl_articles timeout_env (ArticleCrawler timeout_config) [collector_stub, sample_stub])
     = Inr [error_record, second_failed_record] \<and>
   total_attempts (stats (fst (crawl_articles timeout_env (ArticleCrawler timeout_config)
      [collector_stub, sample_stub]))) = 2 \<and>
   successful_crawls (stats (fst (crawl_articles timeout_env (ArticleCrawler timeout_config)
      [collector_stub, sample_stub]))) = 0 \<and>
   failed_crawls (stats (fst (crawl_articles timeout_env (ArticleCrawler timeout_config)
      [collector_stub, sample_stub]))) = 2 \<and>
   fallback_used (stats (fst (crawl_articles timeout_env (ArticleCrawler timeout_config)
      [collector_stub, sample_stub]))) = 0"
proof -
  let ?run = "crawl_articles timeout_env (ArticleCrawler timeout_config) [collector_stub, sample_stub]"
  have run: "?run = (fst ?run, Inr [error_record, second_failed_record])"
    by (simp add: timeout_run_two)
  from crawl_statistics[of timeout_env "ArticleCrawler timeout_config" "[collector_stub, sample_stub]"
      "fst ?run" "[error_record, second_failed_record]" timeout_config "fst ?run"
      "[error_record, second_failed_record]"] run
  have "total_attempts (stats (fst ?run)) = 2 \<and>
        successful_crawls (stats (fst ?run)) + failed_crawls (stats (fst ?run)) = 2 \<and>
        fallback_used (stats (fst ?run)) \<le> 2"
    by simp
  moreover have "successful_crawls (stats (fst ?run)) = 0 \<and> fallback_used (stats (fst ?run)) = 0"
    by (simp add: timeout_run_two bump_failed_crawls_def ArticleCrawler_simps)
  moreover have "snd ?run = Inr [error_record, second_failed_record]"
    by (simp add: timeout_run_two)
  ultimately show ?thesis by simp
qed

section \<open>Properties of the content extractor\<close>

lemma clean_text_zero_width_between_spaces:
  "clean_text w [97, 32, 8203, 32, 98] = [97, 32, 32, 98]"
  by (simp add: clean_text_def isspace_def replace_with_empty_def unescape_def strip_def)

lemma try_selectors_append:
  "try_selectors self w pre soup = (soup1, None) \<Longrightarrow>
   try_selectors self w (pre @ rest) soup = try_selectors self w rest soup1"
proof (induction pre arbitrary: soup)
  case Nil
  then show ?case by simp
next
  case (Cons selector pre)
  show ?case
  proof (cases "select_one selector soup")
    case None
    then show ?thesis using Cons by simp
  next
    case (Some element)
    obtain soup' t where cc: "clean_content self w soup element = (soup', t)"
      by (cases "clean_content self w soup element")
    show ?thesis
    proof (cases "length t > 200")
      case True
      then show ?thesis using Cons.prems Some cc by simp
    next
      case False
      then show ?thesis using Cons Some cc by simp
    qed
  qed
qed

lemma try_selectors_threshold:
  "try_selectors self w selectors soup = (soup', Some text) \<Longrightarrow> length text > 200"
proof (induction selectors arbitrary: soup)
  case Nil
  then show ?case by simp
next
  case (Cons selector rest)
  show ?case
  proof (cases "select_one selector soup")
    case None
    then show ?thesis using Cons by simp
  next
    case (Some element)
    obtain soup1 t where cc: "clean_content self w soup element = (soup1, t)"
      by (cases "clean_content self w soup element")
    show ?thesis
    proof (cases "length t > 200")
      case True
      then show ?thesis using Cons.prems Some cc by simp
    next
      case False
      then show ?thesis using Cons Some cc by simp
    qed
  qed
qed

lemma try_selectors_no_match:
  "\<forall>selector \<in> set selectors. select_one selector soup = None \<Longrightarrow>
   try_selectors self w selectors soup = (soup, None)"
  by (induction selectors) auto

lemma site_selectors_first:
  "\<forall>(d, sels) \<in> set earlier. \<not> py_in d domain \<Longrightarrow> py_in site_domain domain \<Longrightarrow>
   site_selectors (earlier @ (site_domain, site_list) # later) domain = site_list"
  by (induction earlier) auto

lemma site_selectors_none:
  "\<forall>(d, sels) \<in> set table. \<not> py_in d domain \<Longrightarrow> site_selectors table domain = []"
  by (induction table) auto

text \<open>
  Claim C3, amended. The selectors for the URL are those of the first entry of the site
  table whose domain occurs in the lower-cased network location, and the generic ones when
  no entry applies. They are tried in order, each on the page as the selectors before it
  have left it: the noise elements of every element tried are removed from the page
  itself. When the selectors before some selector have come out without a result, and the
  first element that this selector matches in the page as it then is has, once cleaned and
  normalised, more than 200 characters, the extractor returns exactly that text and leaves
  the crawler, so the \<open>fallback_used\<close> counter, as it was; the selectors after it do not
  enter the result. Selectors that match no element leave the page as it is. A text that
  the selector loop returns always has more than 200 characters.
\<close>

theorem first_selector_over_threshold_wins:
  "(selectors_for self w u = pre @ selector # post \<and>
    try_selectors self w pre soup = (soup1, None) \<and>
    select_one selector soup1 = Some element \<and>
    clean_content self w soup1 element = (soup2, cleaned) \<and>
    length cleaned > 200 \<longrightarrow>
      extract_main_content self w soup u = (soup2, self, cleaned)) \<and>
   (try_selectors self w selectors soup = (soup', Some found) \<longrightarrow> length found > 200) \<and>
   ((\<forall>s \<in> set pre. select_one s soup = None) \<longrightarrow>
      try_selectors self w pre soup = (soup, None)) \<and>
   (content_selectors self = earlier @ (site_domain, site_list) # later \<and>
    (\<forall>(d, sels) \<in> set earlier. \<not> py_in d (str_lower w (netloc u))) \<and>
    py_in site_domain (str_lower w (netloc u)) \<and> site_list \<noteq> [] \<longrightarrow>
      selectors_for self w u = site_list) \<and>
   ((\<forall>(d, sels) \<in> set (content_selectors self). \<not> py_in d (str_lower w (netloc u))) \<longrightarrow>
      selectors_for self w u = generic_selectors)"
proof -
  have a: "extract_main_content self w soup u = (soup2, self, cleaned)"
    if s: "selectors_for self w u = pre @ selector # post"
      and p: "try_selectors self w pre soup = (soup1, None)"
      and e: "select_one selector soup1 = Some element"
      and c: "clean_content self w soup1 element = (soup2, cleaned)"
      and l: "length cleaned > 200"
  proof -
    have "try_selectors self w (pre @ selector # post) soup
            = try_selectors self w (selector # post) soup1"
      by (rule try_selectors_append[OF p])
    also have "\<dots> = (soup2, Some cleaned)" using e c l by simp
    finally show ?thesis using s by (simp add: extract_main_content_def)
  qed
  have b: "length found > 200" if "try_selectors self w selectors soup = (soup', Some found)"
    using that by (rule try_selectors_threshold)
  have c: "try_selectors self w pre soup = (soup, None)"
    if "\<forall>s \<in> set pre. select_one s soup = None"
    using that by (rule try_selectors_no_match)
  have d: "selectors_for self w u = site_list"
    if "content_selectors self = earlier @ (site_domain, site_list) # later"
      and "\<forall>(d, sels) \<in> set earlier. \<not> py_in d (str_lower w (netloc u))"
      and "py_in site_domain (str_lower w (netloc u))" and "site_list \<noteq> []"
    using that by (simp add: selectors_for_def site_selectors_first)
  have e: "selectors_for self w u = generic_selectors"
    if "\<forall>(d, sels) \<in> set (content_selectors self). \<not> py_in d (str_lower w (netloc u))"
    using that by (simp add: selectors_for_def site_selectors_none)
  show ?thesis using a b c d e by blast
qed

text \<open>
  Claim C4, amended. Let no selector clear the threshold, and let \<open>soup'\<close> be the page as
  the selector loop leaves it, that is, with the noise elements removed in place from
  every element that a selector matched. If \<open>soup'\<close> has a paragraph, the result is the
  normalised join, by single spaces, of the texts of its paragraphs, and \<open>fallback_used\<close>
  is incremented. If it has none and has a body, the result is the normalised first 1000
  characters of the body text; with no body it is the empty string. When no selector
  matches any element, \<open>soup'\<close> is the page itself.
\<close>

theorem paragraphs_before_body:
  "try_selectors self w (selectors_for self w u) soup = (soup', None) \<longrightarrow>
     (find_all (U ''p'') soup' \<noteq> [] \<longrightarrow>
        extract_main_content self w soup u =
          (soup', bump_fallback_used self,
           clean_text w (join (U '' '') (map (get_text [] True) (find_all (U ''p'') soup'))))) \<and>
     (find_all (U ''p'') soup' = [] \<and> find_first (U ''body'') soup' = Some body \<longrightarrow>
        extract_main_content self w soup u =
          (soup', self, clean_text w (take 1000 (get_text [] False body)))) \<and>
     (find_all (U ''p'') soup' = [] \<and> find_first (U ''body'') soup' = None \<longrightarrow>
        extract_main_content self w soup u = (soup', self, [])) \<and>
     ((\<forall>selector \<in> set (selectors_for self w u). select_one selector soup = None) \<longrightarrow>
        soup' = soup)"
proof
  assume t: "try_selectors self w (selectors_for self w u) soup = (soup', None)"
  have a: "extract_main_content self w soup u =
          (soup', bump_fallback_used self,
           clean_text w (join (U '' '') (map (get_text [] True) (find_all (U ''p'') soup'))))"
    if "find_all (U ''p'') soup' \<noteq> []"
    using t that unfolding extract_main_content_def by (simp add: Let_def)
  have b: "extract_main_content self w soup u =
          (soup', self, clean_text w (take 1000 (get_text [] False body)))"
    if "find_all (U ''p'') soup' = []" "find_first (U ''body'') soup' = Some body"
    using t that unfolding extract_main_content_def by (simp add: Let_def)
  have c: "extract_main_content self w soup u = (soup', self, [])"
    if "find_all (U ''p'') soup' = []" "find_first (U ''body'') soup' = None"
    using t that unfolding extract_main_content_def by (simp add: Let_def)
  have d: "soup' = soup"
    if "\<forall>selector \<in> set (selectors_for self w u). select_one selector soup = None"
    using try_selectors_no_match[OF that, of self w] t by simp
  show "(find_all (U ''p'') soup' \<noteq> [] \<longrightarrow>
        extract_main_content self w soup u =
          (soup', bump_fallback_used self,
           clean_text w (join (U '' '') (map (get_text [] True) (find_all (U ''p'') soup'))))) \<and>
     (find_all (U ''p'') soup' = [] \<and> find_first (U ''body'') soup' = Some body \<longrightarrow>
        extract_main_content self w soup u =
          (soup', self, clean_text w (take 1000 (get_text [] False body)))) \<and>
     (find_all (U ''p'') soup' = [] \<and> find_first (U ''body'') soup' = None \<longrightarrow>
        extract_main_content self w soup u = (soup', self, [])) \<and>
     ((\<forall>selector \<in> set (selectors_for self w u). select_one selector soup = None) \<longrightarrow>
        soup' = soup)"
    using a b c d by blast
qed

lemma selectors_for_page_url:
  "selectors_for (ArticleCrawler cfg) timeout_env page_url = generic_selectors"
  by (simp add: selectors_for_def netloc_def after_scheme_def scheme_char_def ascii_alpha_def
      timeout_env_def ascii_lower_def ascii_lower_cp_def ArticleCrawler_def page_url_def
      generic_selectors_def Let_def)

lemma re_sub_spaces_plain:
  "\<forall>c \<in> set s. \<not> isspace c \<Longrightarrow> re_sub_spaces b s = s"
  by (induction s arbitrary: b) auto

lemma dropWhile_none: "\<forall>c \<in> set s. \<not> P c \<Longrightarrow> dropWhile P s = s"
  by (cases s) auto

lemma strip_plain: "\<forall>c \<in> set s. \<not> isspace c \<Longrightarrow> strip s = s"
  by (simp add: strip_def dropWhile_none)

lemma clean_text_plain:
  assumes "\<forall>c \<in> set s. \<not> isspace c \<and> c \<noteq> 8203 \<and> c \<noteq> 65279 \<and> c \<noteq> 38"
  shows "clean_text w s = s"
proof -
  have "replace_with_empty 65279 (replace_with_empty 8203 s) = s"
    using assms by (simp add: replace_with_empty_def)
  moreover have "38 \<notin> set s" using assms by auto
  ultimately show ?thesis
    using assms by (simp add: clean_text_def re_sub_spaces_plain unescape_def strip_plain)
qed

lemma clean_300_facts:
  "length clean_300 = 300" "clean_300 \<noteq> []"
  "\<forall>c \<in> set clean_300. \<not> isspace c \<and> c \<noteq> 8203 \<and> c \<noteq> 65279 \<and> c \<noteq> 38"
  by (auto simp: clean_300_def isspace_def)

lemma decompose_text_only:
  "foldl (\<lambda>el selector. decompose_selected selector el) (Elem name classes attrs [Text s]) selectors
     = Elem name classes attrs [Text s]"
  by (induction selectors) auto

lemma content_page_article: "select_one (U ''article'') content_page = None"
  by (simp add: select_one_def select_def content_page_def)

lemma content_page_div: "select_one (U ''.article-content'') content_page = Some [0, 0, 0]"
  by (simp add: select_one_def select_def content_page_def)

lemma content_page_clean:
  "clean_content self w content_page [0, 0, 0] = (content_page, clean_300)"
  using clean_300_facts
  by (simp add: clean_content_def content_page_def decompose_text_only get_text_def
      strip_plain clean_text_plain)

lemma nav_page_run:
  "extract_main_content (ArticleCrawler cfg) timeout_env nav_page page_url
     = (nav_page_after, ArticleCrawler cfg, [])"
  unfolding extract_main_content_def selectors_for_page_url
  by (simp add: generic_selectors_def select_one_def select_def nav_page_def nav_page_after_def
      clean_content_def ArticleCrawler_def get_text_def clean_text_def find_all_def
      find_first_def)

lemma nav_page_try:
  "try_selectors (ArticleCrawler cfg) timeout_env (selectors_for (ArticleCrawler cfg) timeout_env page_url) nav_page
     = (nav_page_after, None)"
  unfolding selectors_for_page_url
  by (simp add: generic_selectors_def select_one_def select_def nav_page_def nav_page_after_def
      clean_content_def ArticleCrawler_def get_text_def clean_text_def)

lemma nav_page_paragraphs:
  "find_all (U ''p'') nav_page = [Elem (U ''p'') [] [] [Text (U ''menu'')]]"
  by (simp add: find_all_def nav_page_def)

lemma menu_text:
  "clean_text timeout_env (join (U '' '') (map (get_text [] True) [Elem (U ''p'') [] [] [Text (U ''menu'')]]))
     = U ''menu''"
  by (simp add: get_text_def strip_def isspace_def clean_text_def replace_with_empty_def
      unescape_def)

lemma paragraph_page_try:
  "try_selectors (ArticleCrawler cfg) timeout_env
     (selectors_for (ArticleCrawler cfg) timeout_env page_url) paragraph_page
     = (paragraph_page, None)"
  unfolding selectors_for_page_url
  by (simp add: generic_selectors_def select_one_def select_def paragraph_page_def)

lemma paragraph_page_paragraphs:
  "find_all (U ''p'') paragraph_page = [Elem (U ''p'') [] [] [Text (U ''menu'')]]"
  by (simp add: find_all_def paragraph_page_def)

lemma other_300_facts:
  "length other_300 = 300" "other_300 \<noteq> []"
  "\<forall>c \<in> set other_300. \<not> isspace c \<and> c \<noteq> 8203 \<and> c \<noteq> 65279 \<and> c \<noteq> 38"
  by (auto simp: other_300_def isspace_def)

lemma techcrunch_netloc:
  "str_lower timeout_env (netloc techcrunch_url) = U ''techcrunch.com''"
  by (simp add: netloc_def after_scheme_def scheme_char_def ascii_alpha_def timeout_env_def
      ascii_lower_def ascii_lower_cp_def techcrunch_url_def Let_def)

lemma techcrunch_page_entry:
  "select_one (U ''.entry-content'') techcrunch_page = Some [0, 0, 1]"
  by (simp add: select_one_def select_def techcrunch_page_def)

lemma techcrunch_page_article:
  "select_one (U ''article'') techcrunch_page = Some [0, 0, 0]"
  by (simp add: select_one_def select_def techcrunch_page_def)

lemma techcrunch_page_clean_entry:
  "clean_content self w techcrunch_page [0, 0, 1] = (techcrunch_page, clean_300)"
  using clean_300_facts
  by (simp add: clean_content_def techcrunch_page_def decompose_text_only get_text_def
      strip_plain clean_text_plain)

lemma techcrunch_page_clean_article:
  "clean_content self w techcrunch_page [0, 0, 0] = (techcrunch_page, other_300)"
  using other_300_facts
  by (simp add: clean_content_def techcrunch_page_def decompose_text_only get_text_def
      strip_plain clean_text_plain)

lemma aside_page_div:
  "select_one (U ''.article-content'') aside_page = Some [0, 0, 0, 0, 0]"
  by (simp add: select_one_def select_def aside_page_def)

lemma aside_page_clean:
  "clean_content self w aside_page [0, 0, 0, 0, 0] = (aside_page, clean_300)"
  using clean_300_facts
  by (simp add: clean_content_def aside_page_def decompose_text_only get_text_def
      strip_plain clean_text_plain)

lemma aside_page_run:
  "extract_main_content (ArticleCrawler cfg) timeout_env aside_page page_url
     = (nav_page_after, ArticleCrawler cfg, [])"
  unfolding extract_main_content_def selectors_for_page_url
  by (simp add: generic_selectors_def select_one_def select_def aside_page_def nav_page_after_def
      clean_content_def ArticleCrawler_def get_text_def clean_text_def find_all_def
      find_first_def)

theorem first_selector_over_threshold_wins_witness:
  "selectors_for (ArticleCrawler timeout_config) timeout_env page_url
     = [U ''article''] @ U ''.article-content'' # drop 2 generic_selectors \<and>
   try_selectors (ArticleCrawler timeout_config) timeout_env [U ''article''] content_page
     = (content_page, None) \<and>
   select_one (U ''.article-content'') content_page = Some [0, 0, 0] \<and>
   clean_content (ArticleCrawler timeout_config) timeout_env content_page [0, 0, 0]
     = (content_page, clean_300) \<and>
   length clean_300 = 300 \<and>
   extract_main_content (ArticleCrawler timeout_config) timeout_env content_page page_url
     = (content_page, ArticleCrawler timeout_config, clean_300) \<and>
   techcrunch_url = U ''https://TechCrunch.com/a'' \<and>
   str_lower timeout_env (netloc techcrunch_url) = U ''techcrunch.com'' \<and>
   selectors_for (ArticleCrawler timeout_config) timeout_env techcrunch_url
     = [U ''.entry-content'', U ''.article-content''] \<and>
   select_one (U ''.entry-content'') techcrunch_page = Some [0, 0, 1] \<and>
   extract_main_content (ArticleCrawler timeout_config) timeout_env techcrunch_page techcrunch_url
     = (techcrunch_page, ArticleCrawler timeout_config, clean_300) \<and>
   select_one (U ''article'') techcrunch_page = Some [0, 0, 0] \<and>
   extract_main_content (ArticleCrawler timeout_config) timeout_env techcrunch_page page_url
     = (techcrunch_page, ArticleCrawler timeout_config, other_300) \<and>
   clean_300 \<noteq> other_300"
proof -
  let ?self = "ArticleCrawler timeout_config"
  note thm1 = first_selector_over_threshold_wins[where self = ?self and w = timeout_env]
  have s: "selectors_for ?self timeout_env page_url
             = [U ''article''] @ U ''.article-content'' # drop 2 generic_selectors"
    unfolding selectors_for_page_url by (simp add: generic_selectors_def)
  have p: "try_selectors ?self timeout_env [U ''article''] content_page = (content_page, None)"
    using content_page_article by simp
  note e = content_page_div
  have c: "clean_content ?self timeout_env content_page [0, 0, 0] = (content_page, clean_300)"
    by (rule content_page_clean)
  have l: "length clean_300 > 200" by (simp add: clean_300_facts)
  from thm1[where u = page_url and pre = "[U ''article'']"
      and selector = "U ''.article-content''" and post = "drop 2 generic_selectors"
      and soup = content_page and ?soup1.0 = content_page and element = "[0, 0, 0]"
      and ?soup2.0 = content_page and cleaned = clean_300] s p e c l
  have r1: "extract_main_content ?self timeout_env content_page page_url
     = (content_page, ?self, clean_300)" by blast
  have t: "content_selectors ?self =
             [(U ''aitimes.com'', [U ''.article-content'', U ''.news-content'', U ''article''])]
             @ (U ''techcrunch.com'', [U ''.entry-content'', U ''.article-content''])
             # drop 2 (content_selectors ?self)"
    by (simp add: ArticleCrawler_def)
  have n1: "\<forall>(d, sels) \<in> set [(U ''aitimes.com'',
                 [U ''.article-content'', U ''.news-content'', U ''article''])].
              \<not> py_in d (str_lower timeout_env (netloc techcrunch_url))"
    unfolding techcrunch_netloc by simp
  have n2: "py_in (U ''techcrunch.com'') (str_lower timeout_env (netloc techcrunch_url))"
    unfolding techcrunch_netloc by simp
  from thm1[where u = techcrunch_url
      and earlier = "[(U ''aitimes.com'', [U ''.article-content'', U ''.news-content'', U ''article''])]"
      and site_domain = "U ''techcrunch.com''"
      and site_list = "[U ''.entry-content'', U ''.article-content'']"
      and later = "drop 2 (content_selectors ?self)"] t n1 n2
  have s2: "selectors_for ?self timeout_env techcrunch_url
              = [U ''.entry-content'', U ''.article-content'']" by blast
  have s2': "selectors_for ?self timeout_env techcrunch_url
              = [] @ U ''.entry-content'' # [U ''.article-content'']" using s2 by simp
  have p2: "try_selectors ?self timeout_env [] techcrunch_page = (techcrunch_page, None)"
    by simp
  from thm1[where u = techcrunch_url and pre = "[]"
      and selector = "U ''.entry-content''" and post = "[U ''.article-content'']"
      and soup = techcrunch_page and ?soup1.0 = techcrunch_page and element = "[0, 0, 1]"
      and ?soup2.0 = techcrunch_page and cleaned = clean_300]
    s2' p2 techcrunch_page_entry techcrunch_page_clean_entry[of ?self timeout_env] l
  have r2: "extract_main_content ?self timeout_env techcrunch_page techcrunch_url
     = (techcrunch_page, ?self, clean_300)" by blast
  have s3: "selectors_for ?self timeout_env page_url
              = [] @ U ''article'' # drop 1 generic_selectors"
    unfolding selectors_for_page_url by (simp add: generic_selectors_def)
  have l3: "length other_300 > 200" by (simp add: other_300_facts)
  from thm1[where u = page_url and pre = "[]"
      and selector = "U ''article''" and post = "drop 1 generic_selectors"
      and soup = techcrunch_page and ?soup1.0 = techcrunch_page and element = "[0, 0, 0]"
      and ?soup2.0 = techcrunch_page and cleaned = other_300]
    s3 p2 techcrunch_page_article techcrunch_page_clean_article[of ?self timeout_env] l3
  have r3: "extract_main_content ?self timeout_env techcrunch_page page_url
     = (techcrunch_page, ?self, other_300)" by blast
  have d: "clean_300 \<noteq> other_300" by (simp add: clean_300_def other_300_def)
  show ?thesis
    using s p e c clean_300_facts(1) r1 techcrunch_netloc s2 techcrunch_page_entry r2
      techcrunch_page_article r3 d
    by (simp add: techcrunch_url_def)
qed

text \<open>
  Claim C3, as stated, fails. On the page whose \<open>div\<close> of class \<open>article-content\<close>, with
  300 characters of clean text, sits in an \<open>aside\<close> inside an \<open>article\<close>, the selector
  \<open>.article-content\<close> matches that element and its cleaned text has 300 characters. The
  selector \<open>article\<close> is tried first, though, and its cleaning removes the \<open>aside\<close> from
  the page itself; its own text stays below the threshold, and when \<open>.article-content\<close>
  is tried it matches nothing any more. The extractor returns the empty string.
\<close>

theorem aside_content_counterexample:
  "select_one (U ''.article-content'') aside_page = Some [0, 0, 0, 0, 0] \<and>
   clean_content (ArticleCrawler timeout_config) timeout_env aside_page [0, 0, 0, 0, 0]
     = (aside_page, clean_300) \<and>
   length clean_300 = 300 \<and>
   extract_main_content (ArticleCrawler timeout_config) timeout_env aside_page page_url
     = (nav_page_after, ArticleCrawler timeout_config, [])"
  using aside_page_div aside_page_clean[of "ArticleCrawler timeout_config" timeout_env]
    clean_300_facts(1) aside_page_run[of timeout_config]
  by simp

text \<open>
  Claim C4, as stated, fails. On the page whose only paragraph sits in a \<open>nav\<close> inside an
  \<open>article\<close>, the selector \<open>article\<close> matches, the cleaning removes the \<open>nav\<close> from the
  soup itself and leaves a text below the threshold. The page has a paragraph, whose
  normalised text is \<open>menu\<close>, yet the paragraph search then finds none: the result is the
  empty string, from the body, and the counter is not incremented.
\<close>

theorem nav_paragraph_counterexample:
  "find_all (U ''p'') nav_page = [Elem (U ''p'') [] [] [Text (U ''menu'')]] \<and>
   try_selectors (ArticleCrawler timeout_config) timeout_env
       (selectors_for (ArticleCrawler timeout_config) timeout_env page_url) nav_page
     = (nav_page_after, None) \<and>
   clean_text timeout_env (join (U '' '') (map (get_text [] True) (find_all (U ''p'') nav_page)))
     = U ''menu'' \<and>
   extract_main_content (ArticleCrawler timeout_config) timeout_env nav_page page_url
     = (nav_page_after, ArticleCrawler timeout_config, [])"
  using nav_page_paragraphs nav_page_try[of timeout_config] menu_text
    nav_page_run[of timeout_config]
  by simp

theorem paragraphs_before_body_witness:
  "try_selectors (ArticleCrawler timeout_config) timeout_env
       (selectors_for (ArticleCrawler timeout_config) timeout_env page_url) paragraph_page
     = (paragraph_page, None) \<and>
   find_all (U ''p'') paragraph_page = [Elem (U ''p'') [] [] [Text (U ''menu'')]] \<and>
   extract_main_content (ArticleCrawler timeout_config) timeout_env paragraph_page page_url
     = (paragraph_page, bump_fallback_used (ArticleCrawler timeout_config), U ''menu'') \<and>
   fallback_used (stats (bump_fallback_used (ArticleCrawler timeout_config))) = 1"
proof -
  let ?self = "ArticleCrawler timeout_config"
  have t: "try_selectors ?self timeout_env (selectors_for ?self timeout_env page_url) paragraph_page
     = (paragraph_page, None)" by (rule paragraph_page_try)
  note p = paragraph_page_paragraphs
  from paragraphs_before_body[of ?self timeout_env page_url paragraph_page paragraph_page] t p
  have "extract_main_content ?self timeout_env paragraph_page page_url =
          (paragraph_page, bump_fallback_used ?self,
           clean_text timeout_env (join (U '' '') (map (get_text [] True)
              [Elem (U ''p'') [] [] [Text (U ''menu'')]])))"
    by simp
  then have "extract_main_content ?self timeout_env paragraph_page page_url =
          (paragraph_page, bump_fallback_used ?self, U ''menu'')"
    by (simp only: menu_text)
  moreover have "fallback_used (stats (bump_fallback_used ?self)) = 1"
    by (simp add: bump_fallback_used_def ArticleCrawler_simps)
  ultimately show ?thesis using t p by simp
qed

text \<open>
  Claim C9 fails on the code. \<open>_clean_text\<close> collapses the whitespace runs first and
  removes the zero-width characters afterwards, so a zero-width space between two spaces
  leaves two consecutive spaces in the output: \<open>a\<close>, space, U+200B, space, \<open>b\<close> becomes
  \<open>a\<close>, space, space, \<open>b\<close>.
\<close>

theorem clean_text_leaves_whitespace_run:
  "clean_text timeout_env [97, 32, 8203, 32, 98] = [97, 32, 32, 98] \<and> isspace 32 \<and>
   \<not> isspace 8203"
  by (simp add: clean_text_zero_width_between_spaces isspace_def)

section \<open>Properties of the batch summary\<close>

lemma summary_loop_fields:
  "articles (summary_loop e n i arts sd) =
     articles sd @ map (\<lambda>(j, a). article_data_of e n j a) (zip [i..<i + length arts] arts) \<and>
   sources (summary_loop e n i arts sd) = sources sd \<union> source_or_unknown ` set arts \<and>
   total_articles (summary_loop e n i arts sd) = total_articles sd \<and>
   latest (summary_loop e n i arts sd) = latest sd \<and>
   earliest (summary_loop e n i arts sd) = earliest sd"
proof (induction arts arbitrary: i sd)
  case Nil
  then show ?case by simp
next
  case (Cons a rest)
  have "[i..<i + length (a # rest)] = i # [Suc i..<Suc i + length rest]"
    by (subst upt_rec) simp
  then show ?case using Cons[of "Suc i"]
    by (simp add: Let_def article_data_of_def)
qed

lemma sort_keys_length: "length (sort_keys e arts) = length arts"
  by (simp add: sort_keys_def)

lemma decorated_desc: "sorted_wrt (\<lambda>p q. fst q \<le> fst p) (decorated e arts)"
proof -
  have "sorted (map (\<lambda>p. - int (fst p)) (decorated e arts))"
    unfolding decorated_def by (rule sorted_sort_key)
  then show ?thesis
    by (simp add: sorted_map sorted_wrt_iff_nth_less)
qed

lemma decorated_mset: "mset (decorated e arts) = mset (zip (sort_keys e arts) arts)"
  by (simp add: decorated_def)

lemma sorted_articles_mset: "mset (sorted_articles e arts) = mset arts"
proof -
  have "mset (sorted_articles e arts) = image_mset snd (mset (decorated e arts))"
    by (simp add: sorted_articles_def)
  also have "\<dots> = mset (map snd (zip (sort_keys e arts) arts))"
    by (simp add: decorated_mset)
  also have "map snd (zip (sort_keys e arts) arts) = arts"
    by (simp add: sort_keys_length)
  finally show ?thesis .
qed

lemma sorted_articles_length: "length (sorted_articles e arts) = length arts"
  using sorted_articles_mset[of e arts] by (metis size_mset)

lemma sorted_articles_set: "set (sorted_articles e arts) = set arts"
  using sorted_articles_mset[of e arts] by (metis set_mset_mset)

lemma sum_list_sorted:
  fixes f :: "article \<Rightarrow> nat"
  shows "sum_list (map f (sorted_articles e arts)) = sum_list (map f arts)"
proof -
  have "sum_list (map f (sorted_articles e arts)) = sum_mset (mset (map f (sorted_articles e arts)))"
    by (simp only: sum_mset_sum_list)
  also have "mset (map f (sorted_articles e arts)) = mset (map f arts)"
    by (simp add: sorted_articles_mset)
  also have "sum_mset (mset (map f arts)) = sum_list (map f arts)"
    by (simp only: sum_mset_sum_list)
  finally show ?thesis .
qed

lemma sorted_desc_hd_last:
  assumes "sorted_wrt (\<lambda>a b. p b \<le> p a) ys" and "ys \<noteq> []"
  shows "p (hd ys) = Max (p ` set ys) \<and> p (last ys) = Min (p ` set ys)"
proof -
  have "\<forall>y \<in> set ys. p y \<le> p (hd ys)"
    using assms by (cases ys) auto
  then have mx: "Max (p ` set ys) = p (hd ys)"
    using assms(2) by (intro Max_eqI) auto
  have "\<forall>y \<in> set ys. p (last ys) \<le> p y"
    using assms
  proof (induction ys)
    case Nil
    then show ?case by simp
  next
    case (Cons y ys)
    then show ?case by (cases ys) auto
  qed
  then have mn: "Min (p ` set ys) = p (last ys)"
    using assms(2) by (intro Min_eqI) auto
  show ?thesis using mx mn by simp
qed

lemma map_zip_indep:
  "length js = length xs \<Longrightarrow> (\<And>j x. x \<in> set xs \<Longrightarrow> h (j, x) = g x) \<Longrightarrow>
   map h (zip js xs) = map g xs"
  by (induction js xs rule: list_induct2) auto

lemma insort_key_map:
  "insort_key k (h x) (map h ys) = map h (insort_key (\<lambda>y. k (h y)) x ys)"
  by (induction ys) simp_all

lemma sort_key_map:
  "sort_key k (map h xs) = map h (sort_key (\<lambda>y. k (h y)) xs)"
  by (induction xs) (simp_all add: insort_key_map)

lemma zip_map_self: "zip (map g xs) xs = map (\<lambda>x. (g x, x)) xs"
  by (induction xs) simp_all

text \<open>
  When every article has a published time the clock plays no part in the order: the
  sorted articles are the input under a stable sort on the published time, latest first.
\<close>

lemma sort_keys_published:
  assumes "\<forall>a \<in> set arts. published a \<noteq> None"
  shows "sort_keys e arts = map (\<lambda>a. the (published a)) arts"
  unfolding sort_keys_def
proof (rule map_zip_indep)
  show "length [0..<length arts] = length arts" by simp
next
  fix j x assume "x \<in> set arts"
  then have "published x \<noteq> None" using assms by blast
  then show "(case (j, x) of (k, x) \<Rightarrow> published_or_now e k x) = the (published x)"
    by (auto simp: published_or_now_def)
qed

lemma sorted_articles_published:
  assumes "\<forall>a \<in> set arts. published a \<noteq> None"
  shows "sorted_articles e arts = sort_key (\<lambda>a. - int (the (published a))) arts"
proof -
  have "decorated e arts =
          sort_key (\<lambda>p. - int (fst p)) (map (\<lambda>a. (the (published a), a)) arts)"
    by (simp add: decorated_def sort_keys_published[OF assms] zip_map_self)
  also have "\<dots> = map (\<lambda>a. (the (published a), a))
                     (sort_key (\<lambda>a. - int (the (published a))) arts)"
    by (simp add: sort_key_map)
  finally show ?thesis by (simp add: sorted_articles_def comp_def)
qed

lemma sorted_articles_published_desc:
  assumes "\<forall>a \<in> set arts. published a \<noteq> None"
  shows "sorted_wrt (\<lambda>a b. the (published b) \<le> the (published a)) (sorted_articles e arts)"
proof -
  have "sorted (map (\<lambda>a. - int (the (published a))) (sorted_articles e arts))"
    unfolding sorted_articles_published[OF assms] by (rule sorted_sort_key)
  then show ?thesis
    by (simp add: sorted_map sorted_wrt_iff_nth_less)
qed

lemma summary_loop_start:
  fixes e arts
  defines "sd1 \<equiv> summary_loop e (length arts) 1 (sorted_articles e arts)
          \<lparr>total_articles = length arts,
           collection_time = strftime e (datetime_now e (length arts)),
           articles = [], sources = {}, keywords_found = {},
           latest = None, earliest = None,
           total_sources = 0, keywords_found_count = 0, avg_content_length = 0\<rparr>"
  shows "articles sd1 = map (\<lambda>(i, a). article_data_of e (length arts) i a)
                          (zip [1..<Suc (length arts)] (sorted_articles e arts))"
    and "sources sd1 = source_or_unknown ` set arts"
    and "total_articles sd1 = length arts"
    and "latest sd1 = None" and "earliest sd1 = None"
    and "length (articles sd1) = length arts"
    and "\<And>i. i < length arts \<Longrightarrow>
           articles sd1 ! i = article_data_of e (length arts) (Suc i) (sorted_articles e arts ! i)"
    and "map ad_content_length (articles sd1) =
           map (\<lambda>a. length (content_or_empty a)) (sorted_articles e arts)"
proof -
  note len = sorted_articles_length[of e arts]
  note st = sorted_articles_set[of e arts]
  note f = summary_loop_fields[of e "length arts" 1 "sorted_articles e arts", unfolded len]
  show a: "articles sd1 = map (\<lambda>(i, a). article_data_of e (length arts) i a)
                          (zip [1..<Suc (length arts)] (sorted_articles e arts))"
    unfolding sd1_def using f by simp
  show "sources sd1 = source_or_unknown ` set arts"
    unfolding sd1_def using f st by simp
  show "total_articles sd1 = length arts" unfolding sd1_def using f by simp
  show "latest sd1 = None" unfolding sd1_def using f by simp
  show "earliest sd1 = None" unfolding sd1_def using f by simp
  show "length (articles sd1) = length arts" unfolding a using len by (simp del: upt_Suc)
  have "length [1..<Suc (length arts)] = Suc (length arts) - 1"
    by (rule length_upt)
  then have l2: "length [1..<Suc (length arts)] = length (sorted_articles e arts)"
    by (simp add: len)
  show "articles sd1 ! i = article_data_of e (length arts) (Suc i) (sorted_articles e arts ! i)"
    if "i < length arts" for i
  proof -
    have "[1..<Suc (length arts)] ! i = 1 + i"
      using that by (intro nth_upt) simp
    then show ?thesis
      unfolding a using that len l2 by (simp del: upt_Suc)
  qed
  show "map ad_content_length (articles sd1) =
           map (\<lambda>a. length (content_or_empty a)) (sorted_articles e arts)"
    unfolding a map_map
    by (rule map_zip_indep[OF l2]) (simp add: article_data_of_def)
qed

text \<open>
  Claim C8. \<open>datetime.now()\<close> is called once for every sort key, once for the collection
  time and once for every article in the loop; each call may return another time. The
  articles of the summary are the input in the order of a stable sort on the sort keys,
  largest first (a permutation of the input), numbered from 1. For a non-empty input the
  date range runs from the displayed time of the first sorted article to that of the
  last, and the average content length is the sum of the content lengths divided by the
  number of articles, rounded down. The totals are the number of articles and the number
  of distinct sources. For the empty input the average is 0, the article list is empty
  and the date range is unset. When every article has a published time, the clock plays
  no part: the order is that of a stable sort on the published time, latest first, each
  next article no later than the one before, the displayed times are the published times,
  and the date range runs from the latest of all published times to the earliest.
\<close>

theorem summary_sorted_and_totals:
  "articles (create_simple_summary e arts) =
     map (\<lambda>(i, a). article_data_of e (length arts) i a)
       (zip [1..<Suc (length arts)] (sorted_articles e arts)) \<and>
   mset (sorted_articles e arts) = mset arts \<and>
   mset (decorated e arts) = mset (zip (sort_keys e arts) arts) \<and>
   sorted_wrt (\<lambda>p q. fst q \<le> fst p) (decorated e arts) \<and>
   (arts \<noteq> [] \<longrightarrow>
      latest (create_simple_summary e arts)
        = Some (strftime e (published_or_now e (length arts + 1)
                  (hd (sorted_articles e arts)))) \<and>
      earliest (create_simple_summary e arts)
        = Some (strftime e (published_or_now e (length arts + length arts)
                  (last (sorted_articles e arts)))) \<and>
      avg_content_length (create_simple_summary e arts)
        = sum_list (map (\<lambda>a. length (content_or_empty a)) arts) div length arts) \<and>
   total_articles (create_simple_summary e arts) = length arts \<and>
   total_sources (create_simple_summary e arts) = card (source_or_unknown ` set arts) \<and>
   (arts = [] \<longrightarrow>
      avg_content_length (create_simple_summary e arts) = 0 \<and>
      articles (create_simple_summary e arts) = [] \<and>
      latest (create_simple_summary e arts) = None \<and>
      earliest (create_simple_summary e arts) = None) \<and>
   ((\<forall>a \<in> set arts. published a \<noteq> None) \<longrightarrow>
      sorted_articles e arts = sort_key (\<lambda>a. - int (the (published a))) arts \<and>
      sorted_wrt (\<lambda>a b. the (published b) \<le> the (published a)) (sorted_articles e arts) \<and>
      map ad_published (articles (create_simple_summary e arts))
        = map (\<lambda>a. strftime e (the (published a))) (sorted_articles e arts) \<and>
      (arts \<noteq> [] \<longrightarrow>
         latest (create_simple_summary e arts)
           = Some (strftime e (the (published (hd (sorted_articles e arts))))) \<and>
         earliest (create_simple_summary e arts)
           = Some (strftime e (the (published (last (sorted_articles e arts))))) \<and>
         the (published (hd (sorted_articles e arts)))
           = Max ((\<lambda>a. the (published a)) ` set arts) \<and>
         the (published (last (sorted_articles e arts)))
           = Min ((\<lambda>a. the (published a)) ` set arts)))"
proof -
  define sd1 where "sd1 = summary_loop e (length arts) 1 (sorted_articles e arts)
          \<lparr>total_articles = length arts,
           collection_time = strftime e (datetime_now e (length arts)),
           articles = [], sources = {}, keywords_found = {},
           latest = None, earliest = None,
           total_sources = 0, keywords_found_count = 0, avg_content_length = 0\<rparr>"
  note s = summary_loop_start[where e = e and arts = arts, folded sd1_def]
  have css: "create_simple_summary e arts = set_stats (set_date_range sd1)"
    by (simp add: create_simple_summary_def sd1_def)
  let ?ys = "sorted_articles e arts"
  let ?sd = "create_simple_summary e arts"
  let ?n = "length arts"
  note len = sorted_articles_length[of e arts]
  note st = sorted_articles_set[of e arts]
  have arts_eq: "articles ?sd = articles sd1"
    unfolding css by (simp add: set_stats_def set_date_range_def)
  have c1: "articles ?sd =
     map (\<lambda>(i, a). article_data_of e ?n i a) (zip [1..<Suc ?n] ?ys)"
    unfolding arts_eq by (rule s(1))
  have c5: "total_articles ?sd = ?n"
    unfolding css using s(3) by (simp add: set_stats_def set_date_range_def)
  have c6: "total_sources ?sd = card (source_or_unknown ` set arts)"
    unfolding css using s(2) by (simp add: set_stats_def set_date_range_def)
  have c7: "avg_content_length ?sd = 0 \<and> articles ?sd = [] \<and>
      latest ?sd = None \<and> earliest ?sd = None" if "arts = []"
    unfolding css using s(1,4,5,6) that by (simp add: set_stats_def set_date_range_def)
  have hd_pub: "ad_published (hd (articles sd1))
                  = strftime e (published_or_now e (?n + 1) (hd ?ys))"
    and last_pub: "ad_published (last (articles sd1))
                  = strftime e (published_or_now e (?n + ?n) (last ?ys))"
    and ne1: "articles sd1 \<noteq> []"
    if ne: "arts \<noteq> []"
  proof -
    show ne1: "articles sd1 \<noteq> []" using s(6) ne by auto
    have ney: "?ys \<noteq> []" using len ne by auto
    have pos: "0 < ?n" using ne by simp
    have "hd (articles sd1) = articles sd1 ! 0" using ne1 by (rule hd_conv_nth)
    also have "\<dots> = article_data_of e ?n (Suc 0) (?ys ! 0)" using s(7)[OF pos] .
    also have "?ys ! 0 = hd ?ys" using ney by (simp add: hd_conv_nth)
    finally show "ad_published (hd (articles sd1))
                  = strftime e (published_or_now e (?n + 1) (hd ?ys))"
      by (simp add: article_data_of_def)
    have lt: "?n - 1 < ?n" using pos by simp
    have "last (articles sd1) = articles sd1 ! (length (articles sd1) - 1)"
      using ne1 by (rule last_conv_nth)
    also have "\<dots> = articles sd1 ! (?n - 1)" by (simp add: s(6))
    also have "\<dots> = article_data_of e ?n (Suc (?n - 1)) (?ys ! (?n - 1))" using s(7)[OF lt] .
    also have "?ys ! (?n - 1) = last ?ys" using ney len by (simp add: last_conv_nth)
    also have "Suc (?n - 1) = ?n" using pos by simp
    finally show "ad_published (last (articles sd1))
                  = strftime e (published_or_now e (?n + ?n) (last ?ys))"
      by (simp add: article_data_of_def)
  qed
  have la: "latest ?sd = Some (strftime e (published_or_now e (?n + 1) (hd ?ys)))"
    if ne: "arts \<noteq> []"
    unfolding css using ne1[OF ne] hd_pub[OF ne] by (simp add: set_stats_def set_date_range_def)
  have ea: "earliest ?sd = Some (strftime e (published_or_now e (?n + ?n) (last ?ys)))"
    if ne: "arts \<noteq> []"
    unfolding css using ne1[OF ne] last_pub[OF ne]
    by (simp add: set_stats_def set_date_range_def)
  have avg: "avg_content_length ?sd
        = sum_list (map (\<lambda>a. length (content_or_empty a)) arts) div ?n"
    if ne: "arts \<noteq> []"
  proof -
    have "sum_list (map ad_content_length (articles sd1))
            = sum_list (map (\<lambda>a. length (content_or_empty a)) arts)"
      unfolding s(8) by (rule sum_list_sorted)
    then show ?thesis
      unfolding css using ne1[OF ne] s(6) by (simp add: set_stats_def set_date_range_def)
  qed
  have c4: "latest ?sd = Some (strftime e (published_or_now e (?n + 1) (hd ?ys))) \<and>
      earliest ?sd = Some (strftime e (published_or_now e (?n + ?n) (last ?ys))) \<and>
      avg_content_length ?sd
        = sum_list (map (\<lambda>a. length (content_or_empty a)) arts) div ?n"
    if ne: "arts \<noteq> []"
    using la[OF ne] ea[OF ne] avg[OF ne] by simp
  have c8: "?ys = sort_key (\<lambda>a. - int (the (published a))) arts \<and>
      sorted_wrt (\<lambda>a b. the (published b) \<le> the (published a)) ?ys \<and>
      map ad_published (articles ?sd) = map (\<lambda>a. strftime e (the (published a))) ?ys \<and>
      (arts \<noteq> [] \<longrightarrow>
         latest ?sd = Some (strftime e (the (published (hd ?ys)))) \<and>
         earliest ?sd = Some (strftime e (the (published (last ?ys)))) \<and>
         the (published (hd ?ys)) = Max ((\<lambda>a. the (published a)) ` set arts) \<and>
         the (published (last ?ys)) = Min ((\<lambda>a. the (published a)) ` set arts))"
    if pub: "\<forall>a \<in> set arts. published a \<noteq> None"
  proof -
    have pn: "published_or_now e k a = the (published a)" if "a \<in> set ?ys" for k a
      using that pub st by (auto simp: published_or_now_def)
    have "length [1..<Suc ?n] = Suc ?n - 1" by (rule length_upt)
    then have l2: "length [1..<Suc ?n] = length ?ys" by (simp add: len)
    have mp: "map ad_published (articles ?sd) = map (\<lambda>a. strftime e (the (published a))) ?ys"
      unfolding c1 map_map
      by (rule map_zip_indep[OF l2]) (simp add: article_data_of_def pn)
    have rng: "latest ?sd = Some (strftime e (the (published (hd ?ys)))) \<and>
         earliest ?sd = Some (strftime e (the (published (last ?ys)))) \<and>
         the (published (hd ?ys)) = Max ((\<lambda>a. the (published a)) ` set arts) \<and>
         the (published (last ?ys)) = Min ((\<lambda>a. the (published a)) ` set arts)"
      if ne: "arts \<noteq> []"
    proof -
      have ney: "?ys \<noteq> []" using len ne by auto
      have h: "hd ?ys \<in> set ?ys" and l: "last ?ys \<in> set ?ys" using ney by simp_all
      have mm: "the (published (hd ?ys)) = Max ((\<lambda>a. the (published a)) ` set ?ys) \<and>
                the (published (last ?ys)) = Min ((\<lambda>a. the (published a)) ` set ?ys)"
        by (rule sorted_desc_hd_last[OF sorted_articles_published_desc[OF pub] ney])
      show ?thesis using la[OF ne] ea[OF ne] pn[OF h] pn[OF l] mm unfolding st by simp
    qed
    show ?thesis
      using sorted_articles_published[OF pub] sorted_articles_published_desc[OF pub] mp rng
      by blast
  qed
  show ?thesis
    using c1 sorted_articles_mset[of e arts] decorated_mset[of e arts] decorated_desc[of e arts]
      c4 c5 c6 c7 c8
    by blast
qed

lemma sample_facts:
  "published (article_at t s c) = Some t"
  "source_or_unknown (article_at t s c) = s"
  "content_or_empty (article_at t s c) = c"
  by (simp_all add: source_or_unknown_def content_or_empty_def article_at_def)

theorem summary_sorted_and_totals_witness:
  "map published sample_articles = [Some 1000, Some 3000, Some 2000] \<and>
   sorted_articles summary_env_sample sample_articles =
     [article_at 3000 (U ''B'') (U ''abc''), article_at 2000 (U ''A'') [],
      article_at 1000 (U ''A'') (U ''abcd'')] \<and>
   map ad_published (articles (create_simple_summary summary_env_sample sample_articles))
     = [[3000], [2000], [1000]] \<and>
   map rank (articles (create_simple_summary summary_env_sample sample_articles)) = [1, 2, 3] \<and>
   latest (create_simple_summary summary_env_sample sample_articles) = Some [3000] \<and>
   earliest (create_simple_summary summary_env_sample sample_articles) = Some [1000] \<and>
   total_articles (create_simple_summary summary_env_sample sample_articles) = 3 \<and>
   total_sources (create_simple_summary summary_env_sample sample_articles) = 2 \<and>
   avg_content_length (create_simple_summary summary_env_sample sample_articles) = 2"
proof -
  let ?sd = "create_simple_summary summary_env_sample sample_articles"
  let ?ys = "sorted_articles summary_env_sample sample_articles"
  have ne: "sample_articles \<noteq> []" by (simp add: sample_articles_def)
  have pub: "\<forall>a \<in> set sample_articles. published a \<noteq> None"
    by (simp add: sample_articles_def sample_facts)
  have pubs: "map published sample_articles = [Some 1000, Some 3000, Some 2000]"
    by (simp add: sample_articles_def sample_facts)
  note t = summary_sorted_and_totals[of summary_env_sample sample_articles]
  have fmt: "strftime summary_env_sample = (\<lambda>t. [t])" by (simp add: summary_env_sample_def)
  have "?ys = sort_key (\<lambda>a. - int (the (published a))) sample_articles"
    using t pub by blast
  also have "\<dots> = [article_at 3000 (U ''B'') (U ''abc''), article_at 2000 (U ''A'') [],
      article_at 1000 (U ''A'') (U ''abcd'')]"
    by (simp add: sample_articles_def sample_facts)
  finally have srt: "?ys = [article_at 3000 (U ''B'') (U ''abc''), article_at 2000 (U ''A'') [],
      article_at 1000 (U ''A'') (U ''abcd'')]" .
  have arts: "articles ?sd =
       map (\<lambda>(i, a). article_data_of summary_env_sample (length sample_articles) i a)
         (zip [1..<Suc (length sample_articles)] ?ys)"
    using t by blast
  have len: "length sample_articles = 3" by (simp add: sample_articles_def)
  have upt: "[1..<Suc 3] = [1, 2, 3]" by (simp add: upt_rec)
  have "map ad_published (articles ?sd)
          = map (\<lambda>a. strftime summary_env_sample (the (published a))) ?ys"
    using t pub by blast
  then have a1: "map ad_published (articles ?sd) = [[3000], [2000], [1000]]"
    unfolding srt by (simp add: sample_facts fmt)
  have a2: "map rank (articles ?sd) = [1, 2, 3]"
    unfolding arts len upt srt by (simp add: article_data_of_def)
  have "latest ?sd = Some (strftime summary_env_sample (the (published (hd ?ys)))) \<and>
        earliest ?sd = Some (strftime summary_env_sample (the (published (last ?ys))))"
    using t pub ne by blast
  then have a3: "latest ?sd = Some [3000] \<and> earliest ?sd = Some [1000]"
    unfolding srt by (simp add: sample_facts fmt)
  have a4: "total_articles ?sd = 3" using t len by simp
  have "total_sources ?sd = card (source_or_unknown ` set sample_articles)" using t by blast
  also have "\<dots> = 2" by (simp add: sample_articles_def sample_facts card_insert_if)
  finally have a5: "total_sources ?sd = 2" .
  have "avg_content_length ?sd
      = sum_list (map (\<lambda>a. length (content_or_empty a)) sample_articles) div length sample_articles"
    using t ne by blast
  also have "\<dots> = 2" by (simp add: sample_articles_def sample_facts)
  finally have a6: "avg_content_length ?sd = 2" .
  show ?thesis using pubs srt a1 a2 a3 a4 a5 a6 by simp
qed
section \<open>A dict that occurs twice in a batch\<close>

lemma flaky_selectors:
  "content_selectors self = content_selectors (ArticleCrawler cfg) \<Longrightarrow>
   selectors_for self flaky_env page_url = generic_selectors"
  by (simp add: selectors_for_def netloc_def after_scheme_def scheme_char_def ascii_alpha_def
      flaky_env_def timeout_env_def ascii_lower_def ascii_lower_cp_def ArticleCrawler_def
      page_url_def generic_selectors_def Let_def)

lemma flaky_content:
  assumes "content_selectors self = content_selectors (ArticleCrawler cfg)"
  shows "extract_main_content self flaky_env content_page page_url
           = (content_page, self, clean_300)"
proof -
  have p: "try_selectors self flaky_env [U ''article''] content_page = (content_page, None)"
    using content_page_article by simp
  have "try_selectors self flaky_env ([U ''article''] @ U ''.article-content'' # drop 2 generic_selectors)
           content_page
          = try_selectors self flaky_env (U ''.article-content'' # drop 2 generic_selectors)
              content_page"
    by (rule try_selectors_append[OF p])
  also have "\<dots> = (content_page, Some clean_300)"
    using content_page_div content_page_clean[of self flaky_env] clean_300_facts(1) by simp
  also have "[U ''article''] @ U ''.article-content'' # drop 2 generic_selectors
               = generic_selectors"
    by (simp add: generic_selectors_def)
  finally show ?thesis
    by (simp add: extract_main_content_def flaky_selectors[OF assms])
qed

lemma content_page_images: "extract_images w content_page u = Some []"
  by (simp add: extract_images_def find_all_def content_page_def)

text \<open>
  A batch may hold the same dict object twice. The loop writes its result into the dict
  and appends the dict itself, so the second iteration overwrites what the first has
  written: on the batch of one stub taken twice, in a world where the first request
  fails and the second succeeds, the record at the first position of the returned list
  shows the success of the second request.
\<close>

lemma repeated_dict_overwritten:
  "link sample_stub = Some page_url \<and>
   http_get flaky_env 1 page_url = RequestException \<and>
   snd (snd (crawl_articles_refs flaky_env (ArticleCrawler timeout_config)
               (\<lambda>r. sample_stub) [0, 0])) = Inr [0, 0] \<and>
   crawl_status (fst (snd (crawl_articles_refs flaky_env (ArticleCrawler timeout_config)
               (\<lambda>r. sample_stub) [0, 0])) 0) = Some (U ''success'') \<and>
   content (fst (snd (crawl_articles_refs flaky_env (ArticleCrawler timeout_config)
               (\<lambda>r. sample_stub) [0, 0])) 0) = Some clean_300"
proof -
  let ?heap = "(\<lambda>r. sample_stub) :: heap"
  let ?s0 = "(ArticleCrawler timeout_config)
               \<lparr>stats := (stats (ArticleCrawler timeout_config))\<lparr>total_attempts := 2\<rparr>\<rparr>"
  let ?s1 = "bump_failed_crawls ?s0"
  let ?a1 = "sample_stub\<lparr>content := Some [], images := Some [], content_length := Some 0,
                 crawl_status := Some (U ''failed''), crawled_at := Some 1\<rparr>"
  let ?a2 = "?a1\<lparr>content := Some clean_300, images := Some [],
                 content_length := Some (length clean_300),
                 crawl_status := Some (U ''success''), crawled_at := Some 2\<rparr>"
  have l: "link sample_stub = Some page_url" by (simp add: sample_stub_def page_url_def)
  have g: "http_get flaky_env 1 page_url = RequestException"
    by (simp add: flaky_env_def)
  have t: "TIMEOUT (config (ArticleCrawler timeout_config)) = Some 30"
    by (simp add: ArticleCrawler_def timeout_config_def)
  have e1: "extract_content ?s0 flaky_env 1 page_url = (?s0, [], [])"
    using t g by (simp add: extract_content_def)
  have c1: "crawl_one flaky_env 1 ?s0 sample_stub = (?s1, Inr ?a1)"
    using l e1 by (simp add: crawl_one_def sample_stub_def flaky_env_def timeout_env_def)
  have cs: "content_selectors ?s1 = content_selectors (ArticleCrawler timeout_config)"
    by (simp add: bump_failed_crawls_def)
  have g2: "http_get flaky_env 2 page_url = Parsed content_page"
    by (simp add: flaky_env_def)
  have e2: "extract_content ?s1 flaky_env 2 page_url = (?s1, clean_300, [])"
    using t g2 flaky_content[OF cs] content_page_images[of flaky_env page_url]
    by (simp add: extract_content_def bump_failed_crawls_def)
  have c2: "crawl_one flaky_env 2 ?s1 ?a1 = (bump_successful_crawls ?s1, Inr ?a2)"
    using l e2 clean_300_facts(2)
    by (simp add: crawl_one_def sample_stub_def flaky_env_def timeout_env_def)
  have "crawl_loop_refs flaky_env 1 [0, 0] ?s0 ?heap []
          = (bump_successful_crawls ?s1, ?heap(0 := ?a2), Inr [0, 0])"
    using c1 c2 by (simp add: numeral_2_eq_2)
  then have "crawl_articles_refs flaky_env (ArticleCrawler timeout_config) ?heap [0, 0]
          = (bump_successful_crawls ?s1, ?heap(0 := ?a2), Inr [0, 0])"
    by (simp add: crawl_articles_refs_loop numeral_2_eq_2)
  then show ?thesis using l g by simp
qed

end
